theory Spec2Isabelle
  imports Main "HOL-Library.Product_Lexorder"
begin

section \<open>Python values shared by the two scripts\<close>

text \<open>
  The repository holds two scripts that scrape the same review listings:
  \<^verbatim>\<open>scraper.py\<close> and \<^verbatim>\<open>review_scraper.py\<close>. Both drive a browser through Playwright and
  hand date texts to a third-party date parser. The browser and the parsers are the
  environment of the code: every call into them is a value the environment supplies,
  either a result or an exception.
\<close>

datatype exn =
  PlaywrightTimeoutError | PlaywrightError | ValueError | TypeError | UnboundLocalError
  | ParserError

text \<open>
  A naive \<^verbatim>\<open>datetime\<close>: year, month, day, hour, minute, second, microsecond. Python
  compares two naive datetimes field by field in this order, which is the lexicographic
  order of the tuple.
\<close>

type_synonym datetime = "nat \<times> nat \<times> nat \<times> nat \<times> nat \<times> nat \<times> nat"

definition year :: "datetime \<Rightarrow> nat" where
  "year dt = fst dt"

definition month :: "datetime \<Rightarrow> nat" where
  "month dt = fst (snd dt)"

definition day :: "datetime \<Rightarrow> nat" where
  "day dt = fst (snd (snd dt))"

definition midnight :: "nat \<Rightarrow> nat \<Rightarrow> nat \<Rightarrow> datetime" where
  "midnight y m d = (y, m, d, 0, 0, 0, 0)"

subsection \<open>Strings\<close>

text \<open>
  Strings are lists of 8-bit characters, read as the code points below 256; the
  functions below are Python's on such text. \<^verbatim>\<open>str.strip\<close> and the regular expression
  class \<^verbatim>\<open>\s\<close> remove the characters for which \<^verbatim>\<open>str.isspace\<close> holds: among the code
  points below 256 these are 9 to 13, 28 to 32, 133 and 160. \<^verbatim>\<open>str.lower\<close> maps \<^verbatim>\<open>A-Z\<close>
  and the capital letters 192 to 222 (215, the multiplication sign, apart) to the
  letter 32 code points further.
\<close>

definition is_space :: "char \<Rightarrow> bool" where
  "is_space c = (c \<in> set [CHR 0x09, CHR 0x0A, CHR 0x0B, CHR 0x0C, CHR 0x0D,
                            CHR 0x1C, CHR 0x1D, CHR 0x1E, CHR 0x1F, CHR '' '',
                            CHR 0x85, CHR 0xA0])"

definition strip :: "string \<Rightarrow> string" where
  "strip s = rev (dropWhile is_space (rev (dropWhile is_space s)))"

definition upper_letters :: string where
  "upper_letters = ''ABCDEFGHIJKLMNOPQRSTUVWXYZ'' @
     [CHR 0xC0, CHR 0xC1, CHR 0xC2, CHR 0xC3, CHR 0xC4, CHR 0xC5, CHR 0xC6, CHR 0xC7,
      CHR 0xC8, CHR 0xC9, CHR 0xCA, CHR 0xCB, CHR 0xCC, CHR 0xCD, CHR 0xCE, CHR 0xCF,
      CHR 0xD0, CHR 0xD1, CHR 0xD2, CHR 0xD3, CHR 0xD4, CHR 0xD5, CHR 0xD6,
      CHR 0xD8, CHR 0xD9, CHR 0xDA, CHR 0xDB, CHR 0xDC, CHR 0xDD, CHR 0xDE]"

definition lower_letters :: string where
  "lower_letters = ''abcdefghijklmnopqrstuvwxyz'' @
     [CHR 0xE0, CHR 0xE1, CHR 0xE2, CHR 0xE3, CHR 0xE4, CHR 0xE5, CHR 0xE6, CHR 0xE7,
      CHR 0xE8, CHR 0xE9, CHR 0xEA, CHR 0xEB, CHR 0xEC, CHR 0xED, CHR 0xEE, CHR 0xEF,
      CHR 0xF0, CHR 0xF1, CHR 0xF2, CHR 0xF3, CHR 0xF4, CHR 0xF5, CHR 0xF6,
      CHR 0xF8, CHR 0xF9, CHR 0xFA, CHR 0xFB, CHR 0xFC, CHR 0xFD, CHR 0xFE]"

definition lower_char :: "char \<Rightarrow> char" where
  "lower_char c =
     (case map_of (zip upper_letters lower_letters) c of
        None \<Rightarrow> c
      | Some l \<Rightarrow> l)"

definition lower :: "string \<Rightarrow> string" where
  "lower s = map lower_char s"

text \<open>
  \<^verbatim>\<open>s.replace(old, new)\<close> for a non-empty \<^verbatim>\<open>old\<close>: every occurrence, left to right,
  without overlaps. Both scripts call it with literal, non-empty \<^verbatim>\<open>old\<close> only.
\<close>

fun replace :: "string \<Rightarrow> string \<Rightarrow> string \<Rightarrow> string" where
  "replace old new [] = []"
| "replace old new (c # cs) =
     (if old \<noteq> [] \<and> take (length old) (c # cs) = old
      then new @ replace old new (drop (length old - 1) cs)
      else c # replace old new cs)"

definition is_digit :: "char \<Rightarrow> bool" where
  "is_digit c = (c \<in> set ''0123456789'')"

definition digit_val :: "char \<Rightarrow> nat" where
  "digit_val c = of_char c - 48"

definition digit_char :: "nat \<Rightarrow> char" where
  "digit_char n = ''0123456789'' ! (n mod 10)"

text \<open>The last \<open>k\<close> decimal digits of \<open>n\<close>, zero-filled: \<^verbatim>\<open>%02d\<close> and \<^verbatim>\<open>%04d\<close>.\<close>

primrec zfill :: "nat \<Rightarrow> nat \<Rightarrow> string" where
  "zfill 0 n = []"
| "zfill (Suc k) n = zfill k (n div 10) @ [digit_char n]"

definition number :: "string \<Rightarrow> nat" where
  "number s = foldl (\<lambda>acc c. 10 * acc + digit_val c) 0 s"

subsection \<open>\<^verbatim>\<open>datetime.strftime\<close> and \<^verbatim>\<open>datetime.strptime\<close> for \<^verbatim>\<open>%Y-%m-%d\<close>\<close>

text \<open>
  \<^verbatim>\<open>dt.strftime("%Y-%m-%d")\<close>. Python hands \<^verbatim>\<open>%Y\<close> to the C library, and glibc writes
  the year in plain decimal, without leading zeros; month and day have two digits.
\<close>

fun decimal :: "nat \<Rightarrow> string" where
  "decimal n = (if n < 10 then [digit_char n] else decimal (n div 10) @ [digit_char n])"

declare decimal.simps [simp del]

definition iso_date :: "datetime \<Rightarrow> string" where
  "iso_date dt = decimal (year dt) @ ''-'' @ zfill 2 (month dt) @ ''-'' @ zfill 2 (day dt)"

definition is_leap :: "nat \<Rightarrow> bool" where
  "is_leap y = (if y mod 400 = 0 then True else if y mod 100 = 0 then False else y mod 4 = 0)"

definition days_in_month :: "nat \<Rightarrow> nat \<Rightarrow> nat" where
  "days_in_month y m =
     (if m = 2 then (if is_leap y then 29 else 28)
      else if m \<in> set [4, 6, 9, 11] then 30 else 31)"

text \<open>
  \<^verbatim>\<open>strptime\<close> matches the text against the regular expression of the format.
  The month is \<^verbatim>\<open>1[0-2]|0[1-9]|[1-9]\<close> and the day is
  \<^verbatim>\<open>3[0-1]|[1-2]\d|0[1-9]|[1-9]| [1-9]\<close>; the alternatives are listed in the order the
  matcher tries them, each with the text left after it.
\<close>

definition month_alts :: "string \<Rightarrow> (nat \<times> string) list" where
  "month_alts s =
     (if 2 \<le> length s \<and> s ! 0 = CHR ''1'' \<and> s ! 1 \<in> set ''012''
      then [(10 + digit_val (s ! 1), drop 2 s)] else []) @
     (if 2 \<le> length s \<and> s ! 0 = CHR ''0'' \<and> s ! 1 \<in> set ''123456789''
      then [(digit_val (s ! 1), drop 2 s)] else []) @
     (if 1 \<le> length s \<and> s ! 0 \<in> set ''123456789''
      then [(digit_val (s ! 0), drop 1 s)] else [])"

definition day_alts :: "string \<Rightarrow> (nat \<times> string) list" where
  "day_alts s =
     (if 2 \<le> length s \<and> s ! 0 = CHR ''3'' \<and> s ! 1 \<in> set ''01''
      then [(30 + digit_val (s ! 1), drop 2 s)] else []) @
     (if 2 \<le> length s \<and> s ! 0 \<in> set ''12'' \<and> is_digit (s ! 1)
      then [(10 * digit_val (s ! 0) + digit_val (s ! 1), drop 2 s)] else []) @
     (if 2 \<le> length s \<and> s ! 0 = CHR ''0'' \<and> s ! 1 \<in> set ''123456789''
      then [(digit_val (s ! 1), drop 2 s)] else []) @
     (if 1 \<le> length s \<and> s ! 0 \<in> set ''123456789''
      then [(digit_val (s ! 0), drop 1 s)] else []) @
     (if 2 \<le> length s \<and> s ! 0 = CHR '' '' \<and> s ! 1 \<in> set ''123456789''
      then [(digit_val (s ! 1), drop 2 s)] else [])"

definition followed_by_dash :: "nat \<times> string \<Rightarrow> bool" where
  "followed_by_dash a = (case snd a of [] \<Rightarrow> False | c # _ \<Rightarrow> c = CHR ''-'')"

text \<open>
  \<^verbatim>\<open>datetime.strptime(s, "%Y-%m-%d")\<close>: \<^verbatim>\<open>ValueError\<close> when the text does not match, when
  text remains after the day, or when the fields are no date of the calendar (year 0, 30
  February); otherwise the date at midnight.
\<close>

definition strptime :: "string \<Rightarrow> exn + datetime" where
  "strptime s =
     (if length s < 5 then Inl ValueError
      else if \<not> list_all is_digit (take 4 s) then Inl ValueError
      else if s ! 4 \<noteq> CHR ''-'' then Inl ValueError
      else
        (case filter followed_by_dash (month_alts (drop 5 s)) of
           [] \<Rightarrow> Inl ValueError
         | (m, r) # _ \<Rightarrow>
             (case day_alts (tl r) of
                [] \<Rightarrow> Inl ValueError
              | (d, r') # _ \<Rightarrow>
                  if r' \<noteq> [] then Inl ValueError
                  else if number (take 4 s) < 1 then Inl ValueError
                  else if days_in_month (number (take 4 s)) m < d then Inl ValueError
                  else Inr (midnight (number (take 4 s)) m d))))"

section \<open>The browser\<close>

text \<open>
  An element handle answers \<^verbatim>\<open>inner_text()\<close>, \<^verbatim>\<open>get_attribute(name)\<close>,
  \<^verbatim>\<open>is_enabled()\<close> and \<^verbatim>\<open>click()\<close>; a review card answers \<^verbatim>\<open>query_selector\<close>. Each
  call returns or raises. A page answers \<^verbatim>\<open>wait_for_selector\<close> (selector, timeout in
  milliseconds), \<^verbatim>\<open>query_selector_all\<close>, \<^verbatim>\<open>query_selector\<close> and \<^verbatim>\<open>mouse.wheel\<close>; the
  outcome of \<^verbatim>\<open>mouse.wheel\<close> is taken to be the same for every call on one document.
\<close>

record element =
  inner_text :: "exn + string"
  get_attribute :: "string \<Rightarrow> exn + string option"
  is_enabled :: "exn + bool"
  click :: "exn + unit"

record card =
  query_selector :: "string \<Rightarrow> exn + element option"

record page =
  wait_for_selector :: "string \<Rightarrow> nat \<Rightarrow> exn + element option"
  query_selector_all :: "string \<Rightarrow> exn + card list"
  page_query_selector :: "string \<Rightarrow> exn + element option"
  mouse_wheel :: "exn + unit"

text \<open>
  The browser session of one run. \<open>goto\<close> is the outcome of the initial navigation;
  \<open>site b n\<close> is the document the page shows during the \<open>n\<close>-th pass of the page
  loop, that is after \<open>n - 1\<close> clicks on the next-page control; \<open>clock b n i\<close> is
  what the system clock returns while card \<open>i\<close> of pass \<open>n\<close> is processed. Nothing
  bounds the number of documents: a site whose next-page control always works keeps the
  loop running.
\<close>

record browser =
  goto :: "string \<Rightarrow> exn + unit"
  site :: "nat \<Rightarrow> page"
  clock :: "nat \<Rightarrow> nat \<Rightarrow> datetime"

datatype event = Launch | Goto string | Click string | Close

text \<open>Every card of a page with the clock reading at which it is processed.\<close>

definition timed_cards :: "browser \<Rightarrow> nat \<Rightarrow> card list \<Rightarrow> (datetime \<times> card) list" where
  "timed_cards b n cards = map (\<lambda>(i, c). (clock b n i, c)) (enumerate 0 cards)"

text \<open>One entry of the output list: the dictionary the scripts append.\<close>

record review =
  r_source :: string
  r_title :: string
  r_description :: string
  r_date :: string
  r_rating :: string

section \<open>\<^verbatim>\<open>scraper.py\<close>\<close>

subsection \<open>Configuration\<close>

record Selectors =
  review_card :: string
  title :: string
  body :: string
  date :: string
  rating :: "string option"
  next_btn :: "string option"

definition get_selectors :: "string \<Rightarrow> Selectors option" where
  "get_selectors src =
     (let s = lower src in
      if s = ''g2'' then Some
        \<lparr>review_card = ''div.paper, div.review'',
         title = ''div.review-content__title a, a.review-title, h3, h4'',
         body = ''[itemprop='reviewBody'], div.review-body, div.review-content__body'',
         date = ''time, span.time-ago, span.display-date'',
         rating = Some ''meta[itemprop='ratingValue'], [data-test='star-rating'], div.stars, span[aria-label*='star']'',
         next_btn = Some ''a[aria-label='Next'], a.pagination__next, a[rel='next'], button[aria-label='Next']''\<rparr>
      else if s = ''capterra'' then Some
        \<lparr>review_card = ''div.review-card, article[data-testid='review-card'], div[data-automation='review-card']'',
         title = ''h3.review-card-title, h3[data-testid='review-title'], h3'',
         body = ''div.review-card-text, div[data-testid='review-text'], [itemprop='reviewBody']'',
         date = ''div.review-card-date, time, span[data-testid='review-date']'',
         rating = Some ''div.star-rating, [data-testid='star-rating'], span[aria-label*='star']'',
         next_btn = Some ''button[aria-label='Next'], button.pagination-next, a[rel='next']''\<rparr>
      else if s = ''sourceforge'' then Some
        \<lparr>review_card = ''section.topic, div.review, article.review'',
         title = ''p.lead, h3, h4, a.title'',
         body = ''div.content, div.review-body, div.body'',
         date = ''span.posted-date, time, span.date'',
         rating = Some ''div.stars, span[aria-label*='star'], [itemprop='ratingValue']'',
         next_btn = Some ''a.pagination-next, a[rel='next'], a[aria-label='Next'], button[aria-label='Next']''\<rparr>
      else None)"

definition build_url :: "string \<Rightarrow> string \<Rightarrow> string" where
  "build_url src company =
     (let s = lower src; slug = replace '' '' ''-'' (lower (strip company)) in
      if s = ''g2'' then ''https://www.g2.com/products/'' @ slug @ ''/reviews''
      else if s = ''capterra'' then ''https://www.capterra.com/p/'' @ slug @ ''/reviews''
      else if s = ''sourceforge'' then ''https://sourceforge.net/software/product/'' @ slug @ ''/reviews''
      else [])"

subsection \<open>Date normalisation\<close>

text \<open>
  \<^verbatim>\<open>dateparser.parse\<close> is a third-party library: the text and the \<^verbatim>\<open>RELATIVE_BASE\<close>
  setting go in, a naive datetime or \<^verbatim>\<open>None\<close> comes out (or an exception). It is a
  parameter of every definition that calls it.
\<close>

type_synonym dateparser = "string \<Rightarrow> datetime \<Rightarrow> exn + datetime option"

text \<open>
  \<^verbatim>\<open>parse_date_str(s)\<close>; \<open>now\<close> is what \<^verbatim>\<open>now_utc()\<close> returns, and \<open>s\<close> is \<^verbatim>\<open>None\<close>
  when it comes from an attribute the element does not have.
\<close>

definition parse_date_str :: "dateparser \<Rightarrow> datetime \<Rightarrow> string option \<Rightarrow> exn + datetime option" where
  "parse_date_str dateparse now s =
     (case s of
        None \<Rightarrow> Inr None
      | Some t \<Rightarrow> if t = [] then Inr None else dateparse t now)"

definition within_range :: "datetime \<Rightarrow> datetime \<Rightarrow> datetime \<Rightarrow> bool" where
  "within_range dt start_dt end_dt = (start_dt \<le> dt \<and> dt \<le> end_dt)"

subsection \<open>Extraction from one card\<close>

definition extract_text_safe :: "card \<Rightarrow> string \<Rightarrow> string" where
  "extract_text_safe root selector =
     (case query_selector root selector of
        Inl e \<Rightarrow> []
      | Inr None \<Rightarrow> []
      | Inr (Some el) \<Rightarrow> (case inner_text el of Inl e \<Rightarrow> [] | Inr txt \<Rightarrow> strip txt))"

text \<open>
  The regular expression \<^verbatim>\<open>([0-9]+(\.[0-9]+)?)\s*out of\s*([0-9]+)\<close> with \<^verbatim>\<open>re.I\<close>.
  \<open>match_out_of\<close> is the part after the first group, anchored. \<open>match_rating\<close> is the
  whole expression anchored at the start of the text, returning group 1: the digits
  are taken greedily, and giving one back never helps, since what follows the group is
  white space or a letter.
\<close>

definition match_out_of :: "string \<Rightarrow> bool" where
  "match_out_of s =
     (let s1 = dropWhile is_space s in
      if lower (take 6 s1) = ''out of''
      then (case dropWhile is_space (drop 6 s1) of [] \<Rightarrow> False | c # _ \<Rightarrow> is_digit c)
      else False)"

definition match_rating :: "string \<Rightarrow> string option" where
  "match_rating s =
     (let ds = takeWhile is_digit s; r = dropWhile is_digit s in
      if ds = [] then None
      else
        (case r of
           [] \<Rightarrow> None
         | c # r1 \<Rightarrow>
             if c = CHR ''.'' \<and> takeWhile is_digit r1 \<noteq> []
             then (if match_out_of (dropWhile is_digit r1)
                   then Some (ds @ ''.'' @ takeWhile is_digit r1) else None)
             else (if match_out_of r then Some ds else None)))"

text \<open>\<^verbatim>\<open>re.search\<close>: the leftmost position where the expression matches.\<close>

fun search_rating :: "string \<Rightarrow> string option" where
  "search_rating [] = None"
| "search_rating (c # cs) =
     (case match_rating (c # cs) of
        Some g \<Rightarrow> Some g
      | None \<Rightarrow> search_rating cs)"

definition extract_rating_safe :: "card \<Rightarrow> string option \<Rightarrow> string" where
  "extract_rating_safe root selector =
     (case selector of
        None \<Rightarrow> []
      | Some sel \<Rightarrow>
          if sel = [] then []
          else
            (case query_selector root sel of
               Inl e \<Rightarrow> []
             | Inr None \<Rightarrow> []
             | Inr (Some el) \<Rightarrow>
                 (case get_attribute el ''aria-label'' of
                    Inl e \<Rightarrow> []
                  | Inr a \<Rightarrow>
                      (let aria = (case a of None \<Rightarrow> [] | Some t \<Rightarrow> t) in
                       case (if aria = [] then None else search_rating aria) of
                         Some g \<Rightarrow> g
                       | None \<Rightarrow>
                           (case inner_text el of
                              Inl e \<Rightarrow> []
                            | Inr txt \<Rightarrow> strip txt)))))"

subsection \<open>The controller\<close>

text \<open>
  The variables of \<^verbatim>\<open>scrape_reviews\<close>: the result list, the flag
  \<^verbatim>\<open>old_review_reached\<close> and \<^verbatim>\<open>page_index\<close>. \<open>trace\<close> is not a variable of the code:
  it lists, in order, what the run did to the browser (launch, navigation, each click on
  the next-page control that went through, close).
\<close>

record state =
  results :: "review list"
  old_review_reached :: bool
  page_index :: nat
  trace :: "event list"

text \<open>
  Lines 301 to 305: the visible date text, or the \<^verbatim>\<open>datetime\<close> attribute when the text
  is empty. The second \<^verbatim>\<open>query_selector\<close> and \<^verbatim>\<open>get_attribute\<close> are not guarded.
\<close>

definition card_date_raw :: "Selectors \<Rightarrow> card \<Rightarrow> exn + string option" where
  "card_date_raw selectors c =
     (let date_raw = extract_text_safe c (date selectors) in
      if date_raw \<noteq> [] then Inr (Some date_raw)
      else
        (case query_selector c (date selectors) of
           Inl e \<Rightarrow> Inl e
         | Inr None \<Rightarrow> Inr (Some [])
         | Inr (Some date_el) \<Rightarrow> get_attribute date_el ''datetime''))"

definition card_date :: "dateparser \<Rightarrow> Selectors \<Rightarrow> datetime \<times> card \<Rightarrow> exn + datetime option" where
  "card_date dateparse selectors tc =
     (case card_date_raw selectors (snd tc) of
        Inl e \<Rightarrow> Inl e
      | Inr date_raw \<Rightarrow> parse_date_str dateparse (fst tc) date_raw)"

definition make_review :: "Selectors \<Rightarrow> string \<Rightarrow> card \<Rightarrow> datetime \<Rightarrow> review" where
  "make_review selectors src c dt =
     (let rating_txt = extract_rating_safe c (rating selectors) in
      \<lparr>r_source = lower src,
       r_title = extract_text_safe c (title selectors),
       r_description = extract_text_safe c (body selectors),
       r_date = iso_date dt,
       r_rating = (if rating_txt = [] then ''N/A'' else rating_txt)\<rparr>)"

text \<open>
  The body of the \<^verbatim>\<open>try\<close> of lines 300 to 328 for one card, taken with the clock
  reading of its turn: an exception, or the variables after it.
\<close>

definition card_body ::
  "dateparser \<Rightarrow> Selectors \<Rightarrow> string \<Rightarrow> datetime \<Rightarrow> datetime \<Rightarrow> datetime \<times> card \<Rightarrow> state \<Rightarrow> exn + state" where
  "card_body dateparse selectors src start_dt end_dt tc st =
     (case card_date dateparse selectors tc of
        Inl e \<Rightarrow> Inl e
      | Inr None \<Rightarrow> Inr st
      | Inr (Some dt) \<Rightarrow>
          if dt < start_dt then Inr (st\<lparr>old_review_reached := True\<rparr>)
          else if within_range dt start_dt end_dt
          then Inr (st\<lparr>results := results st @ [make_review selectors src (snd tc) dt]\<rparr>)
          else Inr st)"

text \<open>\<^verbatim>\<open>except Exception: continue\<close>: the card is skipped and the variables stay.\<close>

definition process_card ::
  "dateparser \<Rightarrow> Selectors \<Rightarrow> string \<Rightarrow> datetime \<Rightarrow> datetime \<Rightarrow> datetime \<times> card \<Rightarrow> state \<Rightarrow> state" where
  "process_card dateparse selectors src start_dt end_dt tc st =
     (case card_body dateparse selectors src start_dt end_dt tc st of
        Inl e \<Rightarrow> st
      | Inr st' \<Rightarrow> st')"

text \<open>\<^verbatim>\<open>for card in cards\<close>.\<close>

primrec cards_loop ::
  "dateparser \<Rightarrow> Selectors \<Rightarrow> string \<Rightarrow> datetime \<Rightarrow> datetime \<Rightarrow> (datetime \<times> card) list \<Rightarrow> state \<Rightarrow> state" where
  "cards_loop dateparse selectors src start_dt end_dt [] st = st"
| "cards_loop dateparse selectors src start_dt end_dt (tc # tcs) st =
     cards_loop dateparse selectors src start_dt end_dt tcs
       (process_card dateparse selectors src start_dt end_dt tc st)"

definition try_click :: "page \<Rightarrow> string \<Rightarrow> nat \<Rightarrow> bool" where
  "try_click pg selector timeout_ms =
     (case wait_for_selector pg selector timeout_ms of
        Inl e \<Rightarrow> False
      | Inr None \<Rightarrow> False
      | Inr (Some el) \<Rightarrow>
          (case is_enabled el of
             Inl e \<Rightarrow> False
           | Inr enabled \<Rightarrow>
               if enabled then (case click el of Inl e \<Rightarrow> False | Inr u \<Rightarrow> True)
               else False))"

text \<open>
  \<^verbatim>\<open>scroll_page(page, steps)\<close>: \<^verbatim>\<open>steps\<close> calls of \<^verbatim>\<open>page.mouse.wheel\<close>, none of them
  guarded, with a pause after each.
\<close>

definition scroll_page :: "page \<Rightarrow> nat \<Rightarrow> exn + unit" where
  "scroll_page pg steps = (if steps = 0 then Inr () else mouse_wheel pg)"

text \<open>
  Lines 339 to 344: when a next-page control is configured, two calls of
  \<^verbatim>\<open>scroll_page\<close>, whose exceptions leave the function, and then the click.
\<close>

definition has_next :: "Selectors \<Rightarrow> page \<Rightarrow> exn + bool" where
  "has_next selectors pg =
     (case next_btn selectors of
        None \<Rightarrow> Inr False
      | Some sel \<Rightarrow>
          if sel = [] then Inr False
          else
            (case scroll_page pg 3 of
               Inl e \<Rightarrow> Inl e
             | Inr u \<Rightarrow>
                 (case scroll_page pg 3 of
                    Inl e \<Rightarrow> Inl e
                  | Inr u' \<Rightarrow> Inr (try_click pg sel 3000))))"

definition next_selector :: "Selectors \<Rightarrow> string" where
  "next_selector selectors = (case next_btn selectors of None \<Rightarrow> [] | Some sel \<Rightarrow> sel)"

text \<open>
  \<^verbatim>\<open>while True\<close> of lines 283 to 351. The loop has no bound of its own, so the function
  takes the number of passes it may make: \<open>None\<close> means that the passes did not
  suffice. A result is the exception that left the loop, if one did, and the variables at
  that moment. A time-out of the wait for review cards leaves the loop; any other
  exception of the wait, of \<^verbatim>\<open>query_selector_all\<close> or of the scrolling before the click
  is not caught. \<^verbatim>\<open>detect_and_handle_captcha\<close> catches its own exceptions and touches
  none of the variables.
\<close>

fun page_loop ::
  "nat \<Rightarrow> dateparser \<Rightarrow> browser \<Rightarrow> Selectors \<Rightarrow> string \<Rightarrow> datetime \<Rightarrow> datetime \<Rightarrow> state
     \<Rightarrow> (exn option \<times> state) option" where
  "page_loop 0 dateparse b selectors src start_dt end_dt st = None"
| "page_loop (Suc fuel) dateparse b selectors src start_dt end_dt st =
     (let pg = site b (page_index st) in
      case wait_for_selector pg (review_card selectors) 15000 of
        Inl e \<Rightarrow> if e = PlaywrightTimeoutError then Some (None, st) else Some (Some e, st)
      | Inr found \<Rightarrow>
          (case query_selector_all pg (review_card selectors) of
             Inl e \<Rightarrow> Some (Some e, st)
           | Inr cards \<Rightarrow>
               if cards = [] then Some (None, st)
               else
                 (let st1 = cards_loop dateparse selectors src start_dt end_dt
                              (timed_cards b (page_index st) cards) st in
                  if old_review_reached st1 then Some (None, st1)
                  else
                    (case has_next selectors pg of
                       Inl e \<Rightarrow> Some (Some e, st1)
                     | Inr clicked \<Rightarrow>
                         if clicked
                         then page_loop fuel dateparse b selectors src start_dt end_dt
                                (st1\<lparr>page_index := page_index st1 + 1,
                                     trace := trace st1 @ [Click (next_selector selectors)]\<rparr>)
                         else Some (None, st1)))))"

definition initial_state :: state where
  "initial_state = \<lparr>results = [], old_review_reached = False, page_index = 1, trace = []\<rparr>"

text \<open>\<^verbatim>\<open>context.close()\<close> after the loop, reached when no exception left it.\<close>

definition close_session :: "exn option \<times> state \<Rightarrow> exn option \<times> state" where
  "close_session r =
     (case fst r of
        None \<Rightarrow> (None, (snd r)\<lparr>trace := trace (snd r) @ [Close]\<rparr>)
      | Some e \<Rightarrow> r)"

text \<open>
  \<^verbatim>\<open>scrape_reviews\<close> of \<^verbatim>\<open>scraper.py\<close>, with the variables and the trace at its exit.
  The arguments \<^verbatim>\<open>headless\<close>, \<^verbatim>\<open>user_data_dir\<close> and \<^verbatim>\<open>wait_after_nav\<close> choose how the
  browser is launched and how long the run pauses; the cookie banner and the CAPTCHA
  wait catch their own exceptions and touch none of the variables. A time-out of the
  initial navigation is caught, any other exception of it is not; nor is an exception of
  the scrolling of line 278, on the first document, before the loop.
\<close>

definition scrape_session ::
  "nat \<Rightarrow> dateparser \<Rightarrow> browser \<Rightarrow> string \<Rightarrow> string \<Rightarrow> string \<Rightarrow> string \<Rightarrow> string option
     \<Rightarrow> (exn option \<times> state) option" where
  "scrape_session fuel dateparse b company start_date end_date src start_url =
     (case get_selectors src of
        None \<Rightarrow> Some (Some ValueError, initial_state)
      | Some selectors \<Rightarrow>
          (case strptime start_date of
             Inl e \<Rightarrow> Some (Some e, initial_state)
           | Inr start_dt \<Rightarrow>
               (case strptime end_date of
                  Inl e \<Rightarrow> Some (Some e, initial_state)
                | Inr end_dt \<Rightarrow>
                    if end_dt < start_dt then Some (Some ValueError, initial_state)
                    else
                      (let url = (case start_url of
                                    None \<Rightarrow> build_url src company
                                  | Some u \<Rightarrow> if u = [] then build_url src company else u);
                           st0 = initial_state\<lparr>trace := [Launch, Goto url]\<rparr>;
                           crawl =
                             (case scroll_page (site b (page_index st0)) 5 of
                                Inl e \<Rightarrow> Some (Some e, st0)
                              | Inr u \<Rightarrow>
                                  map_option close_session
                                    (page_loop fuel dateparse b selectors src start_dt end_dt st0)) in
                       case goto b url of
                         Inl e \<Rightarrow> if e = PlaywrightTimeoutError then crawl else Some (Some e, st0)
                       | Inr u \<Rightarrow> crawl))))"

text \<open>What the caller of \<^verbatim>\<open>scrape_reviews\<close> sees: the exception, or the list returned.\<close>

definition scrape_reviews ::
  "nat \<Rightarrow> dateparser \<Rightarrow> browser \<Rightarrow> string \<Rightarrow> string \<Rightarrow> string \<Rightarrow> string \<Rightarrow> string option
     \<Rightarrow> (exn + review list) option" where
  "scrape_reviews fuel dateparse b company start_date end_date src start_url =
     map_option (\<lambda>r. case fst r of None \<Rightarrow> Inr (results (snd r)) | Some e \<Rightarrow> Inl e)
       (scrape_session fuel dateparse b company start_date end_date src start_url)"

section \<open>\<^verbatim>\<open>review_scraper.py\<close>\<close>

text \<open>
  The second script has functions of the same names; here they carry the prefix
  \<open>rs_\<close>. Its selectors are a dictionary with six string entries.
\<close>

record selector_dict =
  d_review_card :: string
  d_title :: string
  d_body :: string
  d_date :: string
  d_rating :: string
  d_next_btn :: string

definition rs_get_selectors :: "string \<Rightarrow> selector_dict option" where
  \<open>rs_get_selectors src =
     (if src = ''https://www.g2.com/'' then Some
        \<lparr>d_review_card = ''div.paper'',
         d_title = ''div.review-content__title a'',
         d_body = ''div[itemprop="reviewBody"]'',
         d_date = ''time'',
         d_rating = ''meta[itemprop="ratingValue"]'',
         d_next_btn = ''a.pagination__named-link.js-log-click''\<rparr>
      else if src = ''https://www.capterra.in/'' then Some
        \<lparr>d_review_card = ''div.review-card'',
         d_title = ''h3.review-card-title'',
         d_body = ''div.review-card-text'',
         d_date = ''div.review-card-date'',
         d_rating = ''div.star-rating'',
         d_next_btn = ''button.pagination-next''\<rparr>
      else if src = ''sourceforge'' then Some
        \<lparr>d_review_card = ''section.topic'',
         d_title = ''p.lead'',
         d_body = ''div.content'',
         d_date = ''span.posted-date'',
         d_rating = ''div.stars'',
         d_next_btn = ''a.pagination-next''\<rparr>
      else None)\<close>

text \<open>
  \<^verbatim>\<open>dateutil.parser.parse\<close> returns a naive datetime, or one with a time zone when the
  text names one, or raises; it fills the fields the text leaves out from the current
  date. Comparing a datetime that has a time zone with a naive one raises
  \<^verbatim>\<open>TypeError\<close>.
\<close>

datatype parsed = Naive datetime | Aware datetime

type_synonym dateutil = "string \<Rightarrow> datetime \<Rightarrow> exn + parsed"

text \<open>\<^verbatim>\<open>parse_date(date_str)\<close>; the bare \<^verbatim>\<open>except\<close> returns \<^verbatim>\<open>datetime.now()\<close>.\<close>

definition parse_date :: "dateutil \<Rightarrow> datetime \<Rightarrow> string \<Rightarrow> parsed" where
  "parse_date parse now date_str =
     (let clean_str = strip (replace ''Posted on'' [] (replace ''Written on'' [] date_str)) in
      case parse clean_str now of
        Inl e \<Rightarrow> Naive now
      | Inr dt \<Rightarrow> dt)"

text \<open>\<^verbatim>\<open>str(dt)\<close> of a naive datetime.\<close>

definition str_datetime :: "datetime \<Rightarrow> string" where
  "str_datetime dt =
     (case dt of (y, m, d, hh, mm, ss, us) \<Rightarrow>
        zfill 4 y @ ''-'' @ zfill 2 m @ ''-'' @ zfill 2 d @ '' '' @
        zfill 2 hh @ '':'' @ zfill 2 mm @ '':'' @ zfill 2 ss @
        (if us = 0 then [] else ''.'' @ zfill 6 us))"

text \<open>
  The variables of the second \<^verbatim>\<open>scrape_reviews\<close>: \<^verbatim>\<open>reviews_data\<close> and
  \<^verbatim>\<open>found_old_review\<close>. \<open>pass\<close> and \<open>rs_trace\<close> are not variables of the code:
  \<open>pass\<close> counts the passes of the page loop (one more than the clicks on the
  next-page control that went through), \<open>rs_trace\<close> lists what the run did to the
  browser.
\<close>

record rs_state =
  reviews_data :: "review list"
  found_old_review :: bool
  pass :: nat
  rs_trace :: "event list"

definition element_text :: "element option \<Rightarrow> string \<Rightarrow> exn + string" where
  "element_text el dflt =
     (case el of
        None \<Rightarrow> Inr dflt
      | Some e \<Rightarrow> (case inner_text e of Inl x \<Rightarrow> Inl x | Inr txt \<Rightarrow> Inr (strip txt)))"

text \<open>Lines 104 to 115: the two queries, then the dictionary, then the append.\<close>

definition rs_make_review :: "selector_dict \<Rightarrow> string \<Rightarrow> card \<Rightarrow> datetime \<Rightarrow> exn + review" where
  "rs_make_review selectors src c review_date =
     (case query_selector c (d_title selectors) of
        Inl e \<Rightarrow> Inl e
      | Inr title_el \<Rightarrow>
          (case query_selector c (d_body selectors) of
             Inl e \<Rightarrow> Inl e
           | Inr body_el \<Rightarrow>
               (case element_text title_el ''No Title'' of
                  Inl e \<Rightarrow> Inl e
                | Inr title_txt \<Rightarrow>
                    (case element_text body_el [] of
                       Inl e \<Rightarrow> Inl e
                     | Inr body_txt \<Rightarrow>
                         Inr \<lparr>r_source = src, r_title = title_txt, r_description = body_txt,
                              r_date = iso_date review_date, r_rating = ''N/A''\<rparr>))))"

text \<open>Lines 94 to 96: the date of one card, as \<^verbatim>\<open>parse_date\<close> returns it.\<close>

definition rs_card_date :: "dateutil \<Rightarrow> selector_dict \<Rightarrow> datetime \<times> card \<Rightarrow> exn + parsed" where
  "rs_card_date parse selectors tc =
     (case query_selector (snd tc) (d_date selectors) of
        Inl e \<Rightarrow> Inl e
      | Inr date_el \<Rightarrow>
          (case (case date_el of
                   None \<Rightarrow> Inr (str_datetime (fst tc))
                 | Some el \<Rightarrow> inner_text el) of
             Inl e \<Rightarrow> Inl e
           | Inr date_text \<Rightarrow> Inr (parse_date parse (fst tc) date_text)))"

text \<open>
  The body of the \<^verbatim>\<open>try\<close> of lines 92 to 115 for one card: an exception, or the
  variables after it together with whether the \<^verbatim>\<open>break\<close> of line 101 was taken.
\<close>

definition rs_card_body ::
  "dateutil \<Rightarrow> selector_dict \<Rightarrow> string \<Rightarrow> datetime \<Rightarrow> datetime \<Rightarrow> datetime \<times> card \<Rightarrow> rs_state
     \<Rightarrow> exn + bool \<times> rs_state" where
  "rs_card_body parse selectors src start_dt end_dt tc st =
     (case rs_card_date parse selectors tc of
        Inl e \<Rightarrow> Inl e
      | Inr (Aware dt) \<Rightarrow> Inl TypeError
      | Inr (Naive review_date) \<Rightarrow>
          if review_date < start_dt then Inr (True, st\<lparr>found_old_review := True\<rparr>)
          else if start_dt \<le> review_date \<and> review_date \<le> end_dt
          then (case rs_make_review selectors src (snd tc) review_date of
                  Inl e \<Rightarrow> Inl e
                | Inr item \<Rightarrow> Inr (False, st\<lparr>reviews_data := reviews_data st @ [item]\<rparr>))
          else Inr (False, st))"

text \<open>\<^verbatim>\<open>for card in cards\<close>, with \<^verbatim>\<open>except Exception: continue\<close> and the \<^verbatim>\<open>break\<close>.\<close>

fun rs_cards_loop ::
  "dateutil \<Rightarrow> selector_dict \<Rightarrow> string \<Rightarrow> datetime \<Rightarrow> datetime \<Rightarrow> (datetime \<times> card) list \<Rightarrow> rs_state \<Rightarrow> rs_state" where
  "rs_cards_loop parse selectors src start_dt end_dt [] st = st"
| "rs_cards_loop parse selectors src start_dt end_dt (tc # tcs) st =
     (case rs_card_body parse selectors src start_dt end_dt tc st of
        Inl e \<Rightarrow> rs_cards_loop parse selectors src start_dt end_dt tcs st
      | Inr (stop, st') \<Rightarrow>
          if stop then st'
          else rs_cards_loop parse selectors src start_dt end_dt tcs st')"

text \<open>
  Lines 124 to 131: the next-page control. Nothing here is guarded, so an exception of
  \<^verbatim>\<open>query_selector\<close>, \<^verbatim>\<open>is_enabled\<close> or \<^verbatim>\<open>click\<close> leaves the function. \<open>Some True\<close>:
  clicked; \<open>Some False\<close>: no more pages.
\<close>

definition rs_next :: "selector_dict \<Rightarrow> page \<Rightarrow> exn + bool" where
  "rs_next selectors pg =
     (case page_query_selector pg (d_next_btn selectors) of
        Inl e \<Rightarrow> Inl e
      | Inr None \<Rightarrow> Inr False
      | Inr (Some btn) \<Rightarrow>
          (case is_enabled btn of
             Inl e \<Rightarrow> Inl e
           | Inr enabled \<Rightarrow>
               if enabled then (case click btn of Inl e \<Rightarrow> Inl e | Inr u \<Rightarrow> Inr True)
               else Inr False))"

text \<open>
  \<^verbatim>\<open>while True\<close> of lines 80 to 131, with the passes it may make as for \<open>page_loop\<close>.
  \<^verbatim>\<open>get_selectors\<close> returned \<^verbatim>\<open>None\<close> for a source it does not list, and the first
  subscript of it raises \<^verbatim>\<open>TypeError\<close>.
\<close>

fun rs_page_loop ::
  "nat \<Rightarrow> dateutil \<Rightarrow> browser \<Rightarrow> selector_dict option \<Rightarrow> string \<Rightarrow> datetime \<Rightarrow> datetime \<Rightarrow> rs_state
     \<Rightarrow> (exn option \<times> rs_state) option" where
  "rs_page_loop 0 parse b selectors src start_dt end_dt st = None"
| "rs_page_loop (Suc fuel) parse b selectors src start_dt end_dt st =
     (case selectors of
        None \<Rightarrow> Some (Some TypeError, st)
      | Some sels \<Rightarrow>
          (let pg = site b (pass st) in
           case query_selector_all pg (d_review_card sels) of
             Inl e \<Rightarrow> Some (Some e, st)
           | Inr cards \<Rightarrow>
               if cards = [] then Some (None, st)
               else
                 (let st1 = rs_cards_loop parse sels src start_dt end_dt
                              (timed_cards b (pass st) cards) (st\<lparr>found_old_review := False\<rparr>) in
                  if found_old_review st1 then Some (None, st1)
                  else
                    (case rs_next sels pg of
                       Inl e \<Rightarrow> Some (Some e, st1)
                     | Inr clicked \<Rightarrow>
                         if clicked
                         then rs_page_loop fuel parse b selectors src start_dt end_dt
                                (st1\<lparr>pass := pass st1 + 1,
                                     rs_trace := rs_trace st1 @ [Click (d_next_btn sels)]\<rparr>)
                         else Some (None, st1)))))"

definition rs_initial_state :: rs_state where
  "rs_initial_state = \<lparr>reviews_data = [], found_old_review = False, pass = 1, rs_trace = []\<rparr>"

definition rs_close_session :: "exn option \<times> rs_state \<Rightarrow> exn option \<times> rs_state" where
  "rs_close_session r =
     (case fst r of
        None \<Rightarrow> (None, (snd r)\<lparr>rs_trace := rs_trace (snd r) @ [Close]\<rparr>)
      | Some e \<Rightarrow> r)"

text \<open>Lines 62 to 68: the variable \<^verbatim>\<open>url\<close> is bound for three sources only.\<close>

definition rs_url :: "string \<Rightarrow> string \<Rightarrow> string option" where
  "rs_url src company =
     (if src = ''g2'' then Some (''https://www.g2.com/products/'' @ lower company @ ''/reviews'')
      else if src = ''capterra'' then Some (''https://www.capterra.com/p/'' @ lower company @ ''/reviews'')
      else if src = ''sourceforge''
      then Some (''https://sourceforge.net/software/product/'' @ company @ ''/reviews'')
      else None)"

text \<open>
  \<^verbatim>\<open>scrape_reviews\<close> of \<^verbatim>\<open>review_scraper.py\<close>. The dates are parsed before the browser
  is launched; nothing compares them. An unbound \<^verbatim>\<open>url\<close> raises at the \<^verbatim>\<open>print\<close> that
  follows the launch. No exception of the browser is caught outside the card loop.
\<close>

definition rs_scrape_session ::
  "nat \<Rightarrow> dateutil \<Rightarrow> browser \<Rightarrow> string \<Rightarrow> string \<Rightarrow> string \<Rightarrow> string
     \<Rightarrow> (exn option \<times> rs_state) option" where
  "rs_scrape_session fuel parse b company start_date end_date src =
     (case strptime start_date of
        Inl e \<Rightarrow> Some (Some e, rs_initial_state)
      | Inr start_dt \<Rightarrow>
          (case strptime end_date of
             Inl e \<Rightarrow> Some (Some e, rs_initial_state)
           | Inr end_dt \<Rightarrow>
               (case rs_url src company of
                  None \<Rightarrow> Some (Some UnboundLocalError, rs_initial_state\<lparr>rs_trace := [Launch]\<rparr>)
                | Some url \<Rightarrow>
                    (let st0 = rs_initial_state\<lparr>rs_trace := [Launch, Goto url]\<rparr> in
                     case goto b url of
                       Inl e \<Rightarrow> Some (Some e, st0)
                     | Inr u \<Rightarrow>
                         map_option rs_close_session
                           (rs_page_loop fuel parse b (rs_get_selectors src) src start_dt end_dt st0)))))"

definition rs_scrape_reviews ::
  "nat \<Rightarrow> dateutil \<Rightarrow> browser \<Rightarrow> string \<Rightarrow> string \<Rightarrow> string \<Rightarrow> string
     \<Rightarrow> (exn + review list) option" where
  "rs_scrape_reviews fuel parse b company start_date end_date src =
     map_option (\<lambda>r. case fst r of None \<Rightarrow> Inr (reviews_data (snd r)) | Some e \<Rightarrow> Inl e)
       (rs_scrape_session fuel parse b company start_date end_date src)"

section \<open>Pages and parsers for the examples\<close>

text \<open>
  The closed examples below run the code on small pages. \<open>text_element t\<close> is an
  element whose text is \<open>t\<close> and that has no attribute; \<open>text_card t\<close> is a card on
  which every query finds such an element; on \<open>broken_card\<close> every query raises.
  \<open>listing cs nxt\<close> is a page that shows the cards \<open>cs\<close> (the wait for cards times
  out when there are none), on which the mouse wheel works, and whose next-page control
  is there exactly when \<open>nxt\<close> holds.
\<close>

definition text_element :: "string \<Rightarrow> element" where
  "text_element t =
     \<lparr>inner_text = Inr t, get_attribute = (\<lambda>a. Inr None), is_enabled = Inr True, click = Inr ()\<rparr>"

definition text_card :: "string \<Rightarrow> card" where
  "text_card t = \<lparr>query_selector = (\<lambda>sel. Inr (Some (text_element t)))\<rparr>"


definition listing :: "card list \<Rightarrow> bool \<Rightarrow> page" where
  "listing cs nxt =
     \<lparr>wait_for_selector =
        (\<lambda>sel tmo. if tmo = 15000
                    then (if cs = [] then Inl PlaywrightTimeoutError else Inr (Some (text_element [])))
                    else if nxt then Inr (Some (text_element [])) else Inl PlaywrightTimeoutError),
      query_selector_all = (\<lambda>sel. Inr cs),
      page_query_selector = (\<lambda>sel. if nxt then Inr (Some (text_element [])) else Inr None),
      mouse_wheel = Inr ()\<rparr>"

text \<open>
  Two parsers that agree with the libraries on the texts of the examples: both read a
  date written \<^verbatim>\<open>YYYY-MM-DD\<close> as that day at midnight; \<open>demo_dateparser\<close> resolves
  \<^verbatim>\<open>2 days ago\<close> against the base it is given and returns \<^verbatim>\<open>None\<close> for any other text,
  \<open>demo_dateutil\<close> raises for any other text.
\<close>

definition minus_day :: "datetime \<Rightarrow> datetime" where
  "minus_day dt =
     (case dt of (y, m, d, rest) \<Rightarrow>
        if 1 < d then (y, m, d - 1, rest)
        else if 1 < m then (y, m - 1, days_in_month y (m - 1), rest)
        else (y - 1, 12, 31, rest))"

definition demo_dateparser :: dateparser where
  "demo_dateparser t now =
     (if t = ''2 days ago'' then Inr (Some (minus_day (minus_day now)))
      else (case strptime t of Inl e \<Rightarrow> Inr None | Inr dt \<Rightarrow> Inr (Some dt)))"

definition demo_dateutil :: dateutil where
  "demo_dateutil t now = (case strptime t of Inl e \<Rightarrow> Inl ParserError | Inr dt \<Rightarrow> Inr (Naive dt))"

text \<open>
  \<open>one_page cs now\<close> is a site of one page with the cards \<open>cs\<close> and no next-page
  control, read while the clock shows \<open>now\<close>. \<open>two_pages cs cs'\<close> has a second page
  behind a working next-page control; its clock shows \<open>noon\<close>.
\<close>

definition noon :: datetime where
  "noon = (2024, 3, 5, 12, 0, 0, 0)"

definition one_page :: "card list \<Rightarrow> datetime \<Rightarrow> browser" where
  "one_page cs now = \<lparr>goto = (\<lambda>u. Inr ()), site = (\<lambda>n. listing cs False), clock = (\<lambda>n i. now)\<rparr>"

definition two_pages :: "card list \<Rightarrow> card list \<Rightarrow> browser" where
  "two_pages cs cs' =
     \<lparr>goto = (\<lambda>u. Inr ()),
      site = (\<lambda>n. if n = 1 then listing cs True else if n = 2 then listing cs' True else listing [] False),
      clock = (\<lambda>n i. noon)\<rparr>"

text \<open>The range of the examples: 2 March 2024 to 10 March 2024.\<close>

definition range_start :: datetime where
  "range_start = (2024, 3, 2, 0, 0, 0, 0)"

definition range_end :: datetime where
  "range_end = (2024, 3, 10, 0, 0, 0, 0)"

definition demo_selectors :: Selectors where
  "demo_selectors =
     \<lparr>review_card = ''div.review'', title = ''h3'', body = ''div.body'', date = ''time'',
      rating = Some ''div.stars'', next_btn = Some ''a.next''\<rparr>"

definition demo_dict :: selector_dict where
  "demo_dict =
     \<lparr>d_review_card = ''section.topic'', d_title = ''p.lead'', d_body = ''div.content'',
      d_date = ''span.posted-date'', d_rating = ''div.stars'', d_next_btn = ''a.pagination-next''\<rparr>"

section \<open>The result list of \<^verbatim>\<open>scraper.py\<close>\<close>

text \<open>What one card does to the variables, by the value of its date.\<close>

lemma process_card_cases:
  "process_card dp sels src s e tc st =
     (case card_date dp sels tc of
        Inl x \<Rightarrow> st
      | Inr None \<Rightarrow> st
      | Inr (Some dt) \<Rightarrow>
          if dt < s then st\<lparr>old_review_reached := True\<rparr>
          else if within_range dt s e
          then st\<lparr>results := results st @ [make_review sels src (snd tc) dt]\<rparr>
          else st)"
  by (simp add: process_card_def card_body_def split: sum.splits option.splits)

lemma cards_loop_append:
  "cards_loop dp sels src s e (xs @ ys) st =
     cards_loop dp sels src s e ys (cards_loop dp sels src s e xs st)"
  by (induction xs arbitrary: st) simp_all

text \<open>
  A property of every record that the code can build for a date within the range holds
  for every record of the result list: through one card, one page, the page loop and
  the whole function.
\<close>

lemma process_card_results_inv:
  assumes "\<forall>r \<in> set (results st). P r"
    and "\<And>dt. card_date dp sels tc = Inr (Some dt) \<Longrightarrow> within_range dt s e
           \<Longrightarrow> P (make_review sels src (snd tc) dt)"
  shows "\<forall>r \<in> set (results (process_card dp sels src s e tc st)). P r"
  using assms by (auto simp: process_card_cases split: sum.splits option.splits)

lemma cards_loop_results_inv:
  assumes "\<forall>r \<in> set (results st). P r"
    and "\<And>tc dt. tc \<in> set tcs \<Longrightarrow> card_date dp sels tc = Inr (Some dt) \<Longrightarrow> within_range dt s e
            \<Longrightarrow> P (make_review sels src (snd tc) dt)"
  shows "\<forall>r \<in> set (results (cards_loop dp sels src s e tcs st)). P r"
  using assms
proof (induction tcs arbitrary: st)
  case Nil
  then show ?case by simp
next
  case (Cons tc tcs)
  have "\<forall>r \<in> set (results (process_card dp sels src s e tc st)). P r"
    by (rule process_card_results_inv) (use Cons.prems in auto)
  then show ?case using Cons.IH Cons.prems(2) by simp
qed

lemma page_loop_results_inv:
  assumes "page_loop fuel dp b sels src s e st = Some (x, st')"
    and "\<forall>r \<in> set (results st). P r"
    and "\<And>c dt. within_range dt s e \<Longrightarrow> P (make_review sels src c dt)"
  shows "\<forall>r \<in> set (results st'). P r"
  using assms(1,2)
proof (induction fuel arbitrary: st)
  case 0
  then show ?case by simp
next
  case (Suc fuel)
  show ?case
  proof (cases "wait_for_selector (site b (page_index st)) (review_card sels) 15000")
    case (Inl err)
    with Suc.prems show ?thesis by (auto split: if_splits)
  next
    case (Inr found)
    show ?thesis
    proof (cases "query_selector_all (site b (page_index st)) (review_card sels)")
      case (Inl err)
      with Inr Suc.prems show ?thesis by auto
    next
      case qa: (Inr cards)
      let ?st1 = "cards_loop dp sels src s e (timed_cards b (page_index st) cards) st"
      have inv1: "\<forall>r \<in> set (results ?st1). P r"
        by (rule cards_loop_results_inv) (use Suc.prems(2) assms(3) in auto)
      show ?thesis
      proof (cases "cards = [] \<or> old_review_reached ?st1 \<or> has_next sels (site b (page_index st)) \<noteq> Inr True")
        case True
        with Inr qa Suc.prems inv1 show ?thesis by (auto simp: Let_def split: if_splits sum.splits)
      next
        case False
        with Inr qa Suc.prems(1)
        have "page_loop fuel dp b sels src s e
                (?st1\<lparr>page_index := page_index ?st1 + 1,
                      trace := trace ?st1 @ [Click (next_selector sels)]\<rparr>)
              = Some (x, st')"
          by (simp add: Let_def)
        then show ?thesis by (rule Suc.IH) (use inv1 in simp)
      qed
    qed
  qed
qed

lemma close_session_results: "results (snd (close_session r)) = results (snd r)"
  by (simp add: close_session_def split: option.splits)

lemma scrape_session_results_inv:
  assumes run: "scrape_session fuel dp b company sd ed src su = Some (x, st)"
    and step: "\<And>sels s e c dt. get_selectors src = Some sels \<Longrightarrow> strptime sd = Inr s
                 \<Longrightarrow> strptime ed = Inr e \<Longrightarrow> \<not> e < s \<Longrightarrow> within_range dt s e
                 \<Longrightarrow> P (make_review sels src c dt)"
  shows "\<forall>r \<in> set (results st). P r"
proof (cases "get_selectors src")
  case None
  with run show ?thesis by (auto simp: scrape_session_def initial_state_def)
next
  case (Some sels)
  show ?thesis
  proof (cases "strptime sd")
    case (Inl err)
    with Some run show ?thesis by (auto simp: scrape_session_def initial_state_def)
  next
    case s: (Inr s)
    show ?thesis
    proof (cases "strptime ed")
      case (Inl err)
      with Some s run show ?thesis by (auto simp: scrape_session_def initial_state_def)
    next
      case e: (Inr e)
      show ?thesis
      proof (cases "e < s")
        case True
        with Some s e run show ?thesis by (auto simp: scrape_session_def initial_state_def)
      next
        case False
        define url where "url = (case su of None \<Rightarrow> build_url src company
                                 | Some u \<Rightarrow> if u = [] then build_url src company else u)"
        define st0 where "st0 = initial_state\<lparr>trace := [Launch, Goto url]\<rparr>"
        have st0: "\<forall>r \<in> set (results st0). P r"
          by (simp add: st0_def initial_state_def)
        from run Some s e False
        have "(x, st) = (Some (the x), st0) \<or>
              (\<exists>r0. page_loop fuel dp b sels src s e st0 = Some r0 \<and> close_session r0 = (x, st))"
          by (auto simp: scrape_session_def Let_def url_def st0_def split: sum.splits if_splits)
        then show ?thesis
        proof
          assume "(x, st) = (Some (the x), st0)"
          with st0 show ?thesis by simp
        next
          assume "\<exists>r0. page_loop fuel dp b sels src s e st0 = Some r0 \<and> close_session r0 = (x, st)"
          then obtain x0 s0 where pl: "page_loop fuel dp b sels src s e st0 = Some (x0, s0)"
            and cl: "close_session (x0, s0) = (x, st)"
            by (metis surj_pair)
          have "\<forall>r \<in> set (results s0). P r"
            by (rule page_loop_results_inv[OF pl st0]) (rule step[OF Some s e False])
          moreover have "results st = results s0"
            using close_session_results[of "(x0, s0)"] cl by simp
          ultimately show ?thesis by simp
        qed
      qed
    qed
  qed
qed

section \<open>The result list of \<^verbatim>\<open>review_scraper.py\<close>\<close>

lemma rs_card_body_cases:
  "rs_card_body parse sels src s e tc st =
     (case rs_card_date parse sels tc of
        Inl x \<Rightarrow> Inl x
      | Inr (Aware dt) \<Rightarrow> Inl TypeError
      | Inr (Naive dt) \<Rightarrow>
          if dt < s then Inr (True, st\<lparr>found_old_review := True\<rparr>)
          else if s \<le> dt \<and> dt \<le> e
          then (case rs_make_review sels src (snd tc) dt of
                  Inl x \<Rightarrow> Inl x
                | Inr item \<Rightarrow> Inr (False, st\<lparr>reviews_data := reviews_data st @ [item]\<rparr>))
          else Inr (False, st))"
  by (simp add: rs_card_body_def split: sum.splits parsed.splits)

lemma rs_card_body_inv:
  assumes "rs_card_body parse sels src s e tc st = Inr (stop, st')"
    and "\<forall>r \<in> set (reviews_data st). P r"
    and "\<And>c dt item. s \<le> dt \<Longrightarrow> dt \<le> e \<Longrightarrow> rs_make_review sels src c dt = Inr item \<Longrightarrow> P item"
  shows "\<forall>r \<in> set (reviews_data st'). P r"
  using assms by (auto simp: rs_card_body_cases split: sum.splits parsed.splits if_splits)

lemma rs_cards_loop_inv:
  assumes "\<forall>r \<in> set (reviews_data st). P r"
    and "\<And>c dt item. s \<le> dt \<Longrightarrow> dt \<le> e \<Longrightarrow> rs_make_review sels src c dt = Inr item \<Longrightarrow> P item"
  shows "\<forall>r \<in> set (reviews_data (rs_cards_loop parse sels src s e tcs st)). P r"
  using assms(1)
proof (induction tcs arbitrary: st)
  case Nil
  then show ?case by simp
next
  case (Cons tc tcs)
  show ?case
  proof (cases "rs_card_body parse sels src s e tc st")
    case (Inl err)
    then show ?thesis using Cons by simp
  next
    case (Inr r)
    obtain stop st' where r: "r = (stop, st')"
      by (cases r)
    have "\<forall>r \<in> set (reviews_data st'). P r"
      by (rule rs_card_body_inv[OF Inr[unfolded r] Cons.prems]) (rule assms(2))
    then show ?thesis using Inr r Cons.IH by simp
  qed
qed

lemma rs_page_loop_inv:
  assumes "rs_page_loop fuel parse b selectors src s e st = Some (x, st')"
    and "\<forall>r \<in> set (reviews_data st). P r"
    and "\<And>sels c dt item. selectors = Some sels \<Longrightarrow> s \<le> dt \<Longrightarrow> dt \<le> e
           \<Longrightarrow> rs_make_review sels src c dt = Inr item \<Longrightarrow> P item"
  shows "\<forall>r \<in> set (reviews_data st'). P r"
  using assms(1,2)
proof (induction fuel arbitrary: st)
  case 0
  then show ?case by simp
next
  case (Suc fuel)
  show ?case
  proof (cases selectors)
    case None
    with Suc.prems show ?thesis by auto
  next
    case (Some sels)
    show ?thesis
    proof (cases "query_selector_all (site b (pass st)) (d_review_card sels)")
      case (Inl err)
      with Some Suc.prems show ?thesis by auto
    next
      case qa: (Inr cards)
      let ?st1 = "rs_cards_loop parse sels src s e (timed_cards b (pass st) cards)
                    (st\<lparr>found_old_review := False\<rparr>)"
      have inv1: "\<forall>r \<in> set (reviews_data ?st1). P r"
        by (rule rs_cards_loop_inv) (use Suc.prems(2) assms(3)[OF Some] in auto)
      show ?thesis
      proof (cases "cards = [] \<or> found_old_review ?st1 \<or> rs_next sels (site b (pass st)) \<noteq> Inr True")
        case True
        with Some qa Suc.prems inv1 show ?thesis
          by (auto simp: Let_def split: if_splits sum.splits)
      next
        case False
        with Some qa Suc.prems(1)
        have "rs_page_loop fuel parse b selectors src s e
                (?st1\<lparr>pass := pass ?st1 + 1, rs_trace := rs_trace ?st1 @ [Click (d_next_btn sels)]\<rparr>)
              = Some (x, st')"
          by (simp add: Let_def)
        then show ?thesis by (rule Suc.IH) (use inv1 in simp)
      qed
    qed
  qed
qed

lemma rs_close_session_data: "reviews_data (snd (rs_close_session r)) = reviews_data (snd r)"
  by (simp add: rs_close_session_def split: option.splits)

lemma rs_scrape_session_inv:
  assumes run: "rs_scrape_session fuel parse b company sd ed src = Some (x, st)"
    and step: "\<And>sels s e c dt item. strptime sd = Inr s \<Longrightarrow> strptime ed = Inr e \<Longrightarrow> s \<le> dt \<Longrightarrow> dt \<le> e
                 \<Longrightarrow> rs_make_review sels src c dt = Inr item \<Longrightarrow> P item"
  shows "\<forall>r \<in> set (reviews_data st). P r"
proof (cases "strptime sd")
  case (Inl err)
  with run show ?thesis by (auto simp: rs_scrape_session_def rs_initial_state_def)
next
  case s: (Inr s)
  show ?thesis
  proof (cases "strptime ed")
    case (Inl err)
    with s run show ?thesis by (auto simp: rs_scrape_session_def rs_initial_state_def)
  next
    case e: (Inr e)
    show ?thesis
    proof (cases "rs_url src company")
      case None
      with s e run show ?thesis by (auto simp: rs_scrape_session_def rs_initial_state_def)
    next
      case (Some url)
      define st0 where "st0 = rs_initial_state\<lparr>rs_trace := [Launch, Goto url]\<rparr>"
      have st0: "\<forall>r \<in> set (reviews_data st0). P r"
        by (simp add: st0_def rs_initial_state_def)
      from run s e Some
      have "(x, st) = (Some (the x), st0) \<or>
            (\<exists>r0. rs_page_loop fuel parse b (rs_get_selectors src) src s e st0 = Some r0
                  \<and> rs_close_session r0 = (x, st))"
        by (auto simp: rs_scrape_session_def Let_def st0_def split: sum.splits)
      then show ?thesis
      proof
        assume "(x, st) = (Some (the x), st0)"
        with st0 show ?thesis by simp
      next
        assume "\<exists>r0. rs_page_loop fuel parse b (rs_get_selectors src) src s e st0 = Some r0
                  \<and> rs_close_session r0 = (x, st)"
        then obtain x0 s0 where pl: "rs_page_loop fuel parse b (rs_get_selectors src) src s e st0 = Some (x0, s0)"
          and cl: "rs_close_session (x0, s0) = (x, st)"
          by (metis surj_pair)
        have "\<forall>r \<in> set (reviews_data s0). P r"
          by (rule rs_page_loop_inv[OF pl st0]) (rule step[OF s e])
        moreover have "reviews_data st = reviews_data s0"
          using rs_close_session_data[of "(x0, s0)"] cl by simp
        ultimately show ?thesis by simp
      qed
    qed
  qed
qed

section \<open>Ratings\<close>

lemma make_review_rating: "r_rating (make_review sels src c dt) \<noteq> []"
  by (simp add: make_review_def Let_def)

lemma rs_make_review_fields:
  "rs_make_review sels src c dt = Inr item \<Longrightarrow> r_rating item = ''N/A'' \<and> r_date item = iso_date dt"
  by (auto simp: rs_make_review_def split: sum.splits)

text \<open>
  Claim C9. Every record that either script emits has a rating that is not the empty
  string. In \<^verbatim>\<open>scraper.py\<close> the rating is the text that \<^verbatim>\<open>extract_rating_safe\<close> found or,
  when it found none, the literal \<^verbatim>\<open>N/A\<close>; \<^verbatim>\<open>review_scraper.py\<close> always writes \<^verbatim>\<open>N/A\<close>.
  The statement is about the result list at the exit of the function, whether it
  returned or an exception left it.
\<close>

theorem rating_never_empty:
  "(scrape_session fuel dateparse b company start_date end_date src start_url = Some (x, st)
      \<longrightarrow> (\<forall>r \<in> set (results st). r_rating r \<noteq> []))
   \<and> (rs_scrape_session fuel' parse b' company' start_date' end_date' src' = Some (y, st')
      \<longrightarrow> (\<forall>r \<in> set (reviews_data st'). r_rating r = ''N/A''))"
proof (intro conjI impI)
  assume "scrape_session fuel dateparse b company start_date end_date src start_url = Some (x, st)"
  then show "\<forall>r \<in> set (results st). r_rating r \<noteq> []"
    by (rule scrape_session_results_inv) (rule make_review_rating)
next
  assume "rs_scrape_session fuel' parse b' company' start_date' end_date' src' = Some (y, st')"
  then show "\<forall>r \<in> set (reviews_data st'). r_rating r = ''N/A''"
    by (rule rs_scrape_session_inv) (simp add: rs_make_review_fields)
qed

section \<open>The examples, evaluated\<close>

text \<open>What the parsers, the cards and the pages of the examples return.\<close>

lemmas strptime_eval = strptime_def month_alts_def day_alts_def followed_by_dash_def is_digit_def
  number_def digit_val_def midnight_def days_in_month_def is_leap_def

lemma strptime_0302: "strptime ''2024-03-02'' = Inr range_start"
  by (simp add: strptime_eval range_start_def)

lemma strptime_0310: "strptime ''2024-03-10'' = Inr range_end"
  by (simp add: strptime_eval range_end_def)

lemma strptime_0304: "strptime ''2024-03-04'' = Inr (2024, 3, 4, 0, 0, 0, 0)"
  by (simp add: strptime_eval)

lemma strip_0304: "strip ''2024-03-04'' = ''2024-03-04''"
  by (simp add: strip_def is_space_def)

lemma card_date_text_card:
  "strip t = t \<Longrightarrow> t \<noteq> [] \<Longrightarrow> card_date dp sels (now, text_card t) = dp t now"
  by (simp add: card_date_def card_date_raw_def extract_text_safe_def text_card_def text_element_def
        parse_date_str_def)

lemma make_review_text_card:
  "strip t = t \<Longrightarrow> t \<noteq> [] \<Longrightarrow> rating sels = Some q \<Longrightarrow> q \<noteq> [] \<Longrightarrow>
     make_review sels src (text_card t) dt =
       \<lparr>r_source = lower src, r_title = t, r_description = t, r_date = iso_date dt, r_rating = t\<rparr>"
  by (simp add: make_review_def extract_text_safe_def extract_rating_safe_def text_card_def text_element_def)

lemma enumerate_const: "map (\<lambda>(i, c). (k, c)) (enumerate m cs) = map (Pair k) cs"
  by (induction cs arbitrary: m) simp_all

lemma timed_cards_one_page: "timed_cards (one_page cs now) n cs' = map (Pair now) cs'"
  by (simp add: timed_cards_def one_page_def enumerate_const)

lemma scroll_listing: "scroll_page (listing cs nxt) k = Inr ()"
  by (simp add: scroll_page_def listing_def)

lemma site_one_page: "site (one_page cs now) n = listing cs False"
  by (simp add: one_page_def)

lemma has_next_last: "has_next sels (listing cs False) = Inr False"
proof -
  have "try_click (listing cs False) q 3000 = False" for q
    by (simp add: try_click_def listing_def)
  then show ?thesis
    by (simp add: has_next_def scroll_listing split: option.splits)
qed

lemma page_loop_one_page:
  "cs \<noteq> [] \<Longrightarrow>
   page_loop (Suc fuel) dp (one_page cs now) sels src s e st =
     Some (None, cards_loop dp sels src s e (map (Pair now) cs) st)"
proof -
  assume ne: "cs \<noteq> []"
  have pg: "site (one_page cs now) n = listing cs False" for n
    by (simp add: one_page_def)
  have w: "wait_for_selector (listing cs False) q 15000 = Inr (Some (text_element []))" for q
    using ne by (simp add: listing_def)
  have qa: "query_selector_all (listing cs False) q = Inr cs" for q
    by (simp add: listing_def)
  show ?thesis
    using ne by (simp add: pg w qa timed_cards_one_page has_next_last Let_def)
qed

lemma g2_selectors: "get_selectors ''g2'' = Some
        \<lparr>review_card = ''div.paper, div.review'',
         title = ''div.review-content__title a, a.review-title, h3, h4'',
         body = ''[itemprop='reviewBody'], div.review-body, div.review-content__body'',
         date = ''time, span.time-ago, span.display-date'',
         rating = Some ''meta[itemprop='ratingValue'], [data-test='star-rating'], div.stars, span[aria-label*='star']'',
         next_btn = Some ''a[aria-label='Next'], a.pagination__next, a[rel='next'], button[aria-label='Next']''\<rparr>"
  by (simp add: get_selectors_def lower_def lower_char_def upper_letters_def lower_letters_def)

lemma g2_url: "build_url ''g2'' ''slack'' = ''https://www.g2.com/products/slack/reviews''"
  by (simp add: build_url_def lower_def lower_char_def upper_letters_def lower_letters_def strip_def is_space_def)

lemma lower_g2: "lower ''g2'' = ''g2''"
  by (simp add: lower_def lower_char_def upper_letters_def lower_letters_def)

lemma iso_0304: "iso_date (2024, 3, 4, 0, 0, 0, 0) = ''2024-03-04''"
  by code_simp

lemma demo_dateparser_0304: "demo_dateparser ''2024-03-04'' now = Inr (Some (2024, 3, 4, 0, 0, 0, 0))"
  by (simp add: demo_dateparser_def strptime_0304)

lemma parse_date_0304: "parse_date demo_dateutil now ''2024-03-04'' = Naive (2024, 3, 4, 0, 0, 0, 0)"
  by (simp add: parse_date_def strip_0304 demo_dateutil_def strptime_0304)

lemma rs_card_date_text_card:
  "rs_card_date parse sels (now, text_card t) = Inr (parse_date parse now t)"
  by (simp add: rs_card_date_def text_card_def text_element_def)

lemma rs_make_review_text_card:
  "rs_make_review sels src (text_card t) dt =
     Inr \<lparr>r_source = src, r_title = strip t, r_description = strip t, r_date = iso_date dt,
          r_rating = ''N/A''\<rparr>"
  by (simp add: rs_make_review_def element_text_def text_card_def text_element_def)

lemma rs_next_last: "rs_next sels (listing cs False) = Inr False"
  by (simp add: rs_next_def listing_def)

lemma rs_page_loop_one_page:
  assumes ne: "cs \<noteq> []"
  shows "rs_page_loop (Suc fuel) parse (one_page cs now) (Some sels) src s e st =
     Some (None, rs_cards_loop parse sels src s e (map (Pair now) cs) (st\<lparr>found_old_review := False\<rparr>))"
proof -
  have pg: "site (one_page cs now) n = listing cs False" for n
    by (simp add: one_page_def)
  have qa: "query_selector_all (listing cs False) q = Inr cs" for q
    by (simp add: listing_def)
  show ?thesis
    using ne by (simp add: pg qa timed_cards_one_page rs_next_last Let_def)
qed

lemma sourceforge_dict: "rs_get_selectors ''sourceforge'' = Some demo_dict"
  by (simp add: rs_get_selectors_def demo_dict_def)

lemma sourceforge_url:
  "rs_url ''sourceforge'' ''slack'' = Some ''https://sourceforge.net/software/product/slack/reviews''"
  by (simp add: rs_url_def)

lemma in_range_0304:
  "\<not> (2024, 3, 4, 0, 0, 0, 0) < range_start" "within_range (2024, 3, 4, 0, 0, 0, 0) range_start range_end"
  "range_start \<le> (2024, 3, 4, 0, 0, 0, 0)" "(2024, 3, 4, 0, 0, 0, 0) \<le> range_end" "\<not> range_end < range_start"
  by (simp_all add: within_range_def range_start_def range_end_def)

lemma g2_run:
  "scrape_session (Suc 0) demo_dateparser (one_page [text_card ''2024-03-04''] noon)
      ''slack'' ''2024-03-02'' ''2024-03-10'' ''g2'' None =
   Some (None,
     \<lparr>results = [\<lparr>r_source = ''g2'', r_title = ''2024-03-04'', r_description = ''2024-03-04'',
                  r_date = ''2024-03-04'', r_rating = ''2024-03-04''\<rparr>],
      old_review_reached = False, page_index = 1,
      trace = [Launch, Goto ''https://www.g2.com/products/slack/reviews'', Close]\<rparr>)"
proof -
  have card: "process_card demo_dateparser sels ''g2'' range_start range_end (noon, text_card ''2024-03-04'') st =
      st\<lparr>results := results st @ [make_review sels ''g2'' (text_card ''2024-03-04'') (2024, 3, 4, 0, 0, 0, 0)]\<rparr>"
    for sels st
    by (simp add: process_card_cases card_date_text_card strip_0304 demo_dateparser_0304 in_range_0304)
  have loop: "page_loop (Suc 0) demo_dateparser (one_page [text_card ''2024-03-04''] noon) sels ''g2''
        range_start range_end st =
      Some (None, st\<lparr>results := results st @ [make_review sels ''g2'' (text_card ''2024-03-04'') (2024, 3, 4, 0, 0, 0, 0)]\<rparr>)"
    for sels st
    by (simp add: page_loop_one_page card del: page_loop.simps)
  have goto: "goto (one_page cs now) u = Inr ()" for cs now u
    by (simp add: one_page_def)
  show ?thesis
    unfolding scrape_session_def g2_selectors strptime_0302 strptime_0310
    by (simp add: in_range_0304 g2_url goto loop close_session_def initial_state_def
          site_one_page scroll_listing
          make_review_text_card strip_0304 lower_g2 iso_0304 del: page_loop.simps)
qed

lemma sourceforge_run:
  "rs_scrape_session (Suc 0) demo_dateutil (one_page [text_card ''2024-03-04''] noon)
      ''slack'' ''2024-03-02'' ''2024-03-10'' ''sourceforge'' =
   Some (None,
     \<lparr>reviews_data = [\<lparr>r_source = ''sourceforge'', r_title = ''2024-03-04'', r_description = ''2024-03-04'',
                  r_date = ''2024-03-04'', r_rating = ''N/A''\<rparr>],
      found_old_review = False, pass = 1,
      rs_trace = [Launch, Goto ''https://sourceforge.net/software/product/slack/reviews'', Close]\<rparr>)"
proof -
  have body: "rs_card_body demo_dateutil sels src range_start range_end (noon, text_card ''2024-03-04'') st =
      Inr (False, st\<lparr>reviews_data := reviews_data st @
         [\<lparr>r_source = src, r_title = ''2024-03-04'', r_description = ''2024-03-04'',
                  r_date = ''2024-03-04'', r_rating = ''N/A''\<rparr>]\<rparr>)"
    for sels src st
    by (simp add: rs_card_body_cases rs_card_date_text_card parse_date_0304 in_range_0304
          rs_make_review_text_card strip_0304 iso_0304)
  have loop: "rs_page_loop (Suc 0) demo_dateutil (one_page [text_card ''2024-03-04''] noon) (Some sels) src
        range_start range_end st =
      Some (None, st\<lparr>found_old_review := False, reviews_data := reviews_data st @
         [\<lparr>r_source = src, r_title = ''2024-03-04'', r_description = ''2024-03-04'',
                  r_date = ''2024-03-04'', r_rating = ''N/A''\<rparr>]\<rparr>)"
    for sels src st
    by (simp add: rs_page_loop_one_page body del: rs_page_loop.simps)
  have goto: "goto (one_page cs now) u = Inr ()" for cs now u
    by (simp add: one_page_def)
  show ?thesis
    unfolding rs_scrape_session_def strptime_0302 strptime_0310 sourceforge_url sourceforge_dict
    by (simp add: goto loop rs_close_session_def rs_initial_state_def del: rs_page_loop.simps)
qed

theorem rating_never_empty_witness:
  "(\<exists>st. scrape_session (Suc 0) demo_dateparser (one_page [text_card ''2024-03-04''] noon)
          ''slack'' ''2024-03-02'' ''2024-03-10'' ''g2'' None = Some (None, st)
        \<and> length (results st) = 1 \<and> list_all (\<lambda>r. r_rating r \<noteq> []) (results st))
   \<and> (\<exists>st. rs_scrape_session (Suc 0) demo_dateutil (one_page [text_card ''2024-03-04''] noon)
          ''slack'' ''2024-03-02'' ''2024-03-10'' ''sourceforge'' = Some (None, st)
        \<and> length (reviews_data st) = 1 \<and> list_all (\<lambda>r. r_rating r = ''N/A'') (reviews_data st))"
  using rating_never_empty[of "Suc 0" demo_dateparser "one_page [text_card ''2024-03-04''] noon"
      "''slack''" "''2024-03-02''" "''2024-03-10''" "''g2''" None _ _
      "Suc 0" demo_dateutil "one_page [text_card ''2024-03-04''] noon"
      "''slack''" "''2024-03-02''" "''2024-03-10''" "''sourceforge''"]
  unfolding g2_run sourceforge_run
  by (simp add: list_all_iff)

section \<open>Cards that leave the variables as they are\<close>

text \<open>
  A card whose turn changes nothing can be taken out of the list of cards: the loop ends
  in the same variables. For \<^verbatim>\<open>review_scraper.py\<close> the turn must also not take the
  \<^verbatim>\<open>break\<close>.
\<close>

lemma cards_loop_skip:
  assumes "\<And>st. process_card dp sels src s e tc st = st"
  shows "cards_loop dp sels src s e (xs @ tc # ys) st = cards_loop dp sels src s e (xs @ ys) st"
  by (simp add: cards_loop_append assms)

lemma rs_cards_loop_skip:
  assumes "\<And>st. rs_card_body parse sels src s e tc st = Inr (False, st)
              \<or> (\<exists>x. rs_card_body parse sels src s e tc st = Inl x)"
  shows "rs_cards_loop parse sels src s e (xs @ tc # ys) st = rs_cards_loop parse sels src s e (xs @ ys) st"
proof (induction xs arbitrary: st)
  case Nil
  show ?case using assms[of st] by auto
next
  case (Cons a xs)
  then show ?case by (simp split: sum.splits prod.splits)
qed



lemma newer_not_older:
  fixes dt :: datetime
  shows "e < dt \<Longrightarrow> s \<le> e \<Longrightarrow> \<not> dt < s \<and> \<not> (s \<le> dt \<and> dt \<le> e)"
  by auto

text \<open>A card dated 12 March 2024, two days after the end of the range of the examples.\<close>

lemma strptime_0312: "strptime ''2024-03-12'' = Inr (2024, 3, 12, 0, 0, 0, 0)"
  by (simp add: strptime_eval)

lemma strip_0312: "strip ''2024-03-12'' = ''2024-03-12''"
  by (simp add: strip_def is_space_def)

lemma card_date_0312:
  "card_date demo_dateparser sels (now, text_card ''2024-03-12'') = Inr (Some (2024, 3, 12, 0, 0, 0, 0))"
  by (simp add: card_date_text_card strip_0312 demo_dateparser_def strptime_0312)

lemma rs_card_date_0312:
  "rs_card_date demo_dateutil d (now, text_card ''2024-03-12'') = Inr (Naive (2024, 3, 12, 0, 0, 0, 0))"
  by (simp add: rs_card_date_text_card parse_date_def strip_0312 demo_dateutil_def strptime_0312)

lemma after_range_0312:
  "range_end < (2024, 3, 12, 0, 0, 0, 0)" "range_start \<le> range_end"
  by (simp_all add: range_start_def range_end_def)

section \<open>Exceptions of one card\<close>






section \<open>Sessions on a site of one page\<close>

text \<open>
  On \<open>one_page cs now\<close> either function makes one pass: it reads the cards and finds
  no next-page control. What it returns is what its card loop leaves.
\<close>

lemma goto_one_page: "goto (one_page cs now) u = Inr ()"
  by (simp add: one_page_def)

lemma g2_session_one_page:
  assumes "cs \<noteq> []" and "strptime sd = Inr s" and "strptime ed = Inr e" and "\<not> e < s"
  shows "scrape_session (Suc fuel) dp (one_page cs now) ''slack'' sd ed ''g2'' None =
     Some (close_session (None,
       cards_loop dp (the (get_selectors ''g2'')) ''g2'' s e (map (Pair now) cs)
         \<lparr>results = [], old_review_reached = False, page_index = 1,
          trace = [Launch, Goto ''https://www.g2.com/products/slack/reviews'']\<rparr>))"
  unfolding scrape_session_def g2_selectors assms(2,3)
  using assms(1,4)
  by (simp add: g2_url goto_one_page page_loop_one_page initial_state_def
        site_one_page scroll_listing del: page_loop.simps)

lemma g2_rating_selector:
  "rating (the (get_selectors ''g2'')) =
     Some ''meta[itemprop='ratingValue'], [data-test='star-rating'], div.stars, span[aria-label*='star']''"
  by (simp add: g2_selectors)

lemma sourceforge_session_one_page:
  assumes "cs \<noteq> []" and "strptime sd = Inr s" and "strptime ed = Inr e"
  shows "rs_scrape_session (Suc fuel) parse (one_page cs now) ''slack'' sd ed ''sourceforge'' =
     Some (rs_close_session (None,
       rs_cards_loop parse demo_dict ''sourceforge'' s e (map (Pair now) cs)
         \<lparr>reviews_data = [], found_old_review = False, pass = 1,
          rs_trace = [Launch, Goto ''https://sourceforge.net/software/product/slack/reviews'']\<rparr>))"
  unfolding rs_scrape_session_def assms(2,3) sourceforge_url sourceforge_dict
  using assms(1)
  by (simp add: goto_one_page rs_page_loop_one_page rs_initial_state_def del: rs_page_loop.simps)

section \<open>Dates that cannot be read\<close>











section \<open>Cards older than the range\<close>

lemma process_card_flag:
  "process_card dp sels src s e tc (st\<lparr>old_review_reached := True\<rparr>) =
     (process_card dp sels src s e tc st)\<lparr>old_review_reached := True\<rparr>"
  by (simp add: process_card_cases split: sum.splits option.splits)

lemma cards_loop_flag:
  "cards_loop dp sels src s e tcs (st\<lparr>old_review_reached := True\<rparr>) =
     (cards_loop dp sels src s e tcs st)\<lparr>old_review_reached := True\<rparr>"
  by (induction tcs arbitrary: st) (simp_all add: process_card_flag)

lemma process_card_results_grow:
  "r \<in> set (results st) \<Longrightarrow> r \<in> set (results (process_card dp sels src s e tc st))"
  by (simp add: process_card_cases split: sum.splits option.splits)

lemma cards_loop_results_grow:
  "r \<in> set (results st) \<Longrightarrow> r \<in> set (results (cards_loop dp sels src s e tcs st))"
  by (induction tcs arbitrary: st) (simp_all add: process_card_results_grow)

lemma process_card_in_range:
  assumes "card_date dp sels tc = Inr (Some dt)" and "within_range dt s e"
  shows "process_card dp sels src s e tc st =
           st\<lparr>results := results st @ [make_review sels src (snd tc) dt]\<rparr>"
proof -
  from assms(2) have "\<not> dt < s"
    by (auto simp: within_range_def)
  with assms show ?thesis
    by (simp add: process_card_cases)
qed

lemma cards_loop_collects:
  assumes "tc \<in> set tcs" and "card_date dp sels tc = Inr (Some dt)" and "within_range dt s e"
  shows "make_review sels src (snd tc) dt \<in> set (results (cards_loop dp sels src s e tcs st))"
  using assms(1)
proof (induction tcs arbitrary: st)
  case Nil
  then show ?case by simp
next
  case (Cons a tcs)
  show ?case
  proof (cases "tc = a")
    case True
    have "make_review sels src (snd tc) dt \<in> set (results (process_card dp sels src s e tc st))"
      by (simp add: process_card_in_range[OF assms(2,3)])
    then show ?thesis
      using True by (simp add: cards_loop_results_grow)
  next
    case False
    with Cons.prems have "tc \<in> set tcs" by simp
    then show ?thesis by (simp add: Cons.IH)
  qed
qed

lemma rs_card_body_old:
  assumes "rs_card_date parse d tc = Inr (Naive dt)" and "dt < s"
  shows "rs_card_body parse d src s e tc st = Inr (True, st\<lparr>found_old_review := True\<rparr>)"
  using assms by (simp add: rs_card_body_cases)

text \<open>A card dated 20 February 2024, before the range of the examples.\<close>

lemma strptime_0220: "strptime ''2024-02-20'' = Inr (2024, 2, 20, 0, 0, 0, 0)"
  by (simp add: strptime_eval)

lemma strip_0220: "strip ''2024-02-20'' = ''2024-02-20''"
  by (simp add: strip_def is_space_def)

lemma card_date_0220:
  "card_date demo_dateparser sels (now, text_card ''2024-02-20'') = Inr (Some (2024, 2, 20, 0, 0, 0, 0))"
  by (simp add: card_date_text_card strip_0220 demo_dateparser_def strptime_0220)

lemma rs_card_date_0220:
  "rs_card_date demo_dateutil d (now, text_card ''2024-02-20'') = Inr (Naive (2024, 2, 20, 0, 0, 0, 0))"
  by (simp add: rs_card_date_text_card parse_date_def strip_0220 demo_dateutil_def strptime_0220)

lemma before_range_0220: "(2024, 2, 20, 0, 0, 0, 0) < range_start"
  by (simp add: range_start_def)

lemma card_date_0304:
  "card_date demo_dateparser sels (now, text_card ''2024-03-04'') = Inr (Some (2024, 3, 4, 0, 0, 0, 0))"
  by (simp add: card_date_text_card strip_0304 demo_dateparser_0304)

text \<open>
  \<^verbatim>\<open>review_scraper.py\<close> on a page that shows a review of 20 February and, after it, one of
  4 March, for the range 2 to 10 March: it returns no record.
\<close>

theorem in_range_card_after_old_one_is_lost:
  "rs_scrape_reviews (Suc 0) demo_dateutil (one_page [text_card ''2024-02-20'', text_card ''2024-03-04''] noon)
      ''slack'' ''2024-03-02'' ''2024-03-10'' ''sourceforge'' = Some (Inr [])"
  unfolding rs_scrape_reviews_def
  by (simp add: sourceforge_session_one_page[OF _ strptime_0302 strptime_0310]
        rs_card_body_old[OF rs_card_date_0220 before_range_0220] rs_close_session_def)

text \<open>
  Claim C3, as it holds. In \<^verbatim>\<open>scraper.py\<close> a card dated before the start of the range
  sets \<^verbatim>\<open>old_review_reached\<close> and does nothing else: the card loop ends in the variables
  it would have without the card, with the flag set, and every card of the page that
  comes after it and is dated within the range is in the result list. In
  \<^verbatim>\<open>review_scraper.py\<close> the card loop stops at such a card: the flag is set and the cards
  after it are not read.
\<close>

theorem old_card_sets_flag:
  "(card_date dp sels tc = Inr (Some dt) \<and> dt < s \<longrightarrow>
      process_card dp sels src s e tc st = st\<lparr>old_review_reached := True\<rparr>
      \<and> cards_loop dp sels src s e (xs @ tc # ys) st
          = (cards_loop dp sels src s e (xs @ ys) st)\<lparr>old_review_reached := True\<rparr>
      \<and> (tc2 \<in> set ys \<and> card_date dp sels tc2 = Inr (Some dt2) \<and> within_range dt2 s e \<longrightarrow>
            make_review sels src (snd tc2) dt2
              \<in> set (results (cards_loop dp sels src s e (xs @ tc # ys) st))))
   \<and> (rs_card_date parse d tc' = Inr (Naive dt') \<and> dt' < s' \<longrightarrow>
      rs_cards_loop parse d src' s' e' (tc' # ys') st' = st'\<lparr>found_old_review := True\<rparr>)"
proof (intro conjI impI)
  assume a: "card_date dp sels tc = Inr (Some dt) \<and> dt < s"
  then show p: "process_card dp sels src s e tc st = st\<lparr>old_review_reached := True\<rparr>"
    by (simp add: process_card_cases)
  have "process_card dp sels src s e tc st0 = st0\<lparr>old_review_reached := True\<rparr>" for st0
    using a by (simp add: process_card_cases)
  then show "cards_loop dp sels src s e (xs @ tc # ys) st
          = (cards_loop dp sels src s e (xs @ ys) st)\<lparr>old_review_reached := True\<rparr>"
    by (simp add: cards_loop_append cards_loop_flag)
next
  assume b: "tc2 \<in> set ys \<and> card_date dp sels tc2 = Inr (Some dt2) \<and> within_range dt2 s e"
  then have "tc2 \<in> set (xs @ tc # ys)" by simp
  then show "make_review sels src (snd tc2) dt2 \<in> set (results (cards_loop dp sels src s e (xs @ tc # ys) st))"
    using b by (intro cards_loop_collects) simp_all
next
  assume "rs_card_date parse d tc' = Inr (Naive dt') \<and> dt' < s'"
  then show "rs_cards_loop parse d src' s' e' (tc' # ys') st' = st'\<lparr>found_old_review := True\<rparr>"
    by (simp add: rs_card_body_old)
qed

theorem old_card_sets_flag_witness:
  "card_date demo_dateparser demo_selectors (noon, text_card ''2024-02-20'') = Inr (Some (2024, 2, 20, 0, 0, 0, 0))
   \<and> (2024, 2, 20, 0, 0, 0, 0) < range_start
   \<and> process_card demo_dateparser demo_selectors ''g2'' range_start range_end
        (noon, text_card ''2024-02-20'') initial_state = initial_state\<lparr>old_review_reached := True\<rparr>
   \<and> cards_loop demo_dateparser demo_selectors ''g2'' range_start range_end
        ([] @ (noon, text_card ''2024-02-20'') # [(noon, text_card ''2024-03-04'')]) initial_state
       = (cards_loop demo_dateparser demo_selectors ''g2'' range_start range_end
            ([] @ [(noon, text_card ''2024-03-04'')]) initial_state)\<lparr>old_review_reached := True\<rparr>
   \<and> card_date demo_dateparser demo_selectors (noon, text_card ''2024-03-04'') = Inr (Some (2024, 3, 4, 0, 0, 0, 0))
   \<and> within_range (2024, 3, 4, 0, 0, 0, 0) range_start range_end
   \<and> make_review demo_selectors ''g2'' (text_card ''2024-03-04'') (2024, 3, 4, 0, 0, 0, 0)
       \<in> set (results (cards_loop demo_dateparser demo_selectors ''g2'' range_start range_end
            ([] @ (noon, text_card ''2024-02-20'') # [(noon, text_card ''2024-03-04'')]) initial_state))
   \<and> rs_card_date demo_dateutil demo_dict (noon, text_card ''2024-02-20'') = Inr (Naive (2024, 2, 20, 0, 0, 0, 0))
   \<and> rs_cards_loop demo_dateutil demo_dict ''sourceforge'' range_start range_end
        ((noon, text_card ''2024-02-20'') # [(noon, text_card ''2024-03-04'')]) rs_initial_state
       = rs_initial_state\<lparr>found_old_review := True\<rparr>"
  using old_card_sets_flag[of demo_dateparser demo_selectors "(noon, text_card ''2024-02-20'')"
      "(2024, 2, 20, 0, 0, 0, 0)" range_start "''g2''" range_end initial_state "[]"
      "[(noon, text_card ''2024-03-04'')]" "(noon, text_card ''2024-03-04'')" "(2024, 3, 4, 0, 0, 0, 0)"
      demo_dateutil demo_dict "(noon, text_card ''2024-02-20'')" "(2024, 2, 20, 0, 0, 0, 0)" range_start
      "''sourceforge''" range_end "[(noon, text_card ''2024-03-04'')]" rs_initial_state, unfolded snd_conv]
    card_date_0220[of demo_selectors noon] rs_card_date_0220[of demo_dict noon] before_range_0220
    card_date_0304[of demo_selectors noon] in_range_0304(2)
  by (blast intro: list.set_intros)

section \<open>Dates of the records\<close>



lemma boundaries_within_range:
  fixes s e :: datetime
  shows "s \<le> e \<Longrightarrow> within_range s s e \<and> within_range e s e"
  by (simp add: within_range_def)

text \<open>Two cards dated 2 March and 10 March 2024, the first and the last day of the range.\<close>

lemma strip_0302: "strip ''2024-03-02'' = ''2024-03-02''"
  by (simp add: strip_def is_space_def)

lemma strip_0310: "strip ''2024-03-10'' = ''2024-03-10''"
  by (simp add: strip_def is_space_def)

lemma card_date_0302:
  "card_date demo_dateparser sels (now, text_card ''2024-03-02'') = Inr (Some range_start)"
  by (simp add: card_date_text_card strip_0302 demo_dateparser_def strptime_0302)

lemma card_date_0310:
  "card_date demo_dateparser sels (now, text_card ''2024-03-10'') = Inr (Some range_end)"
  by (simp add: card_date_text_card strip_0310 demo_dateparser_def strptime_0310)

lemma iso_range: "iso_date range_start = ''2024-03-02''" "iso_date range_end = ''2024-03-10''"
  unfolding range_start_def range_end_def by code_simp+

lemma g2_boundary_run:
  "scrape_reviews (Suc 0) demo_dateparser (one_page [text_card ''2024-03-02'', text_card ''2024-03-10''] noon)
      ''slack'' ''2024-03-02'' ''2024-03-10'' ''g2'' None =
   Some (Inr [\<lparr>r_source = ''g2'', r_title = ''2024-03-02'', r_description = ''2024-03-02'',
               r_date = ''2024-03-02'', r_rating = ''2024-03-02''\<rparr>,
              \<lparr>r_source = ''g2'', r_title = ''2024-03-10'', r_description = ''2024-03-10'',
               r_date = ''2024-03-10'', r_rating = ''2024-03-10''\<rparr>])"
  unfolding scrape_reviews_def
  by (simp add: g2_session_one_page[OF _ strptime_0302 strptime_0310 in_range_0304(5)]
        process_card_in_range[OF card_date_0302] process_card_in_range[OF card_date_0310]
        boundaries_within_range after_range_0312(2)
        make_review_text_card g2_rating_selector strip_0302 strip_0310 lower_g2 iso_range
        close_session_def)

section \<open>The page loop of \<^verbatim>\<open>scraper.py\<close>\<close>

text \<open>The card loop touches neither the page index nor the trace, and never clears the flag.\<close>

lemma process_card_frame:
  "page_index (process_card dp sels src s e tc st) = page_index st"
  "trace (process_card dp sels src s e tc st) = trace st"
  "old_review_reached st \<Longrightarrow> old_review_reached (process_card dp sels src s e tc st)"
  by (simp_all add: process_card_cases split: sum.splits option.splits)

lemma cards_loop_frame:
  "page_index (cards_loop dp sels src s e tcs st) = page_index st"
  "trace (cards_loop dp sels src s e tcs st) = trace st"
  "old_review_reached st \<Longrightarrow> old_review_reached (cards_loop dp sels src s e tcs st)"
  by (induction tcs arbitrary: st) (simp_all add: process_card_frame)

lemma cards_loop_old:
  assumes "tc \<in> set tcs" and "card_date dp sels tc = Inr (Some dt)" and "dt < s"
  shows "old_review_reached (cards_loop dp sels src s e tcs st)"
  using assms(1)
proof (induction tcs arbitrary: st)
  case Nil
  then show ?case by simp
next
  case (Cons a tcs)
  show ?case
  proof (cases "tc = a")
    case True
    have "old_review_reached (process_card dp sels src s e tc st)"
      using assms(2,3) by (simp add: process_card_cases)
    then show ?thesis using True by (simp add: cards_loop_frame)
  next
    case False
    with Cons.prems have "tc \<in> set tcs" by simp
    then show ?thesis by (simp add: Cons.IH)
  qed
qed

text \<open>One pass of the loop over a page that shows cards.\<close>

lemma page_loop_pass:
  assumes "wait_for_selector (site b (page_index st)) (review_card sels) 15000 = Inr found"
    and "query_selector_all (site b (page_index st)) (review_card sels) = Inr cards"
    and "cards \<noteq> []"
  shows "page_loop (Suc fuel) dp b sels src s e st =
     (let st1 = cards_loop dp sels src s e (timed_cards b (page_index st) cards) st in
      if old_review_reached st1 then Some (None, st1)
      else
        (case has_next sels (site b (page_index st)) of
           Inl x \<Rightarrow> Some (Some x, st1)
         | Inr clicked \<Rightarrow>
             if clicked
             then page_loop fuel dp b sels src s e
                    (st1\<lparr>page_index := page_index st1 + 1,
                         trace := trace st1 @ [Click (next_selector sels)]\<rparr>)
             else Some (None, st1)))"
  using assms by (simp add: Let_def)






text \<open>
  Two sites on which the loop takes the same decisions from page \<open>k\<close> on: the wait for
  cards and the next-page control answer alike, both pages show cards or neither does,
  and the card loops over them end alike. Then the loop, started at a page not before
  \<open>k\<close>, ends alike on both.
\<close>

lemma page_loop_cong:
  assumes wait: "\<And>m. k \<le> m \<Longrightarrow> wait_for_selector (site b m) (review_card sels) 15000
                    = wait_for_selector (site b' m) (review_card sels) 15000"
    and nxt: "\<And>m. k \<le> m \<Longrightarrow> has_next sels (site b m) = has_next sels (site b' m)"
    and raise: "\<And>m x. k \<le> m \<Longrightarrow>
         (query_selector_all (site b m) (review_card sels) = Inl x)
           = (query_selector_all (site b' m) (review_card sels) = Inl x)"
    and cards: "\<And>m cs cs' st. k \<le> m \<Longrightarrow> query_selector_all (site b m) (review_card sels) = Inr cs
         \<Longrightarrow> query_selector_all (site b' m) (review_card sels) = Inr cs'
         \<Longrightarrow> (cs = [] \<longleftrightarrow> cs' = [])
           \<and> cards_loop dp sels src s e (timed_cards b m cs) st
             = cards_loop dp' sels src s e (timed_cards b' m cs') st"
  shows "k \<le> page_index st \<Longrightarrow>
     page_loop fuel dp b sels src s e st = page_loop fuel dp' b' sels src s e st"
proof (induction fuel arbitrary: st)
  case 0
  show ?case by simp
next
  case (Suc fuel)
  let ?m = "page_index st"
  note w = wait[OF Suc.prems] and n = nxt[OF Suc.prems]
  show ?case
  proof (cases "wait_for_selector (site b ?m) (review_card sels) 15000")
    case (Inl err)
    with w have "wait_for_selector (site b' ?m) (review_card sels) 15000 = Inl err" by simp
    with Inl show ?thesis by (simp add: Let_def)
  next
    case (Inr found)
    with w have w': "wait_for_selector (site b' ?m) (review_card sels) 15000 = Inr found" by simp
    show ?thesis
    proof (cases "query_selector_all (site b ?m) (review_card sels)")
      case (Inl err)
      with raise[OF Suc.prems, of err]
      have "query_selector_all (site b' ?m) (review_card sels) = Inl err" by simp
      with Inl Inr w' show ?thesis by (simp add: Let_def)
    next
      case qa: (Inr cs)
      show ?thesis
      proof (cases "query_selector_all (site b' ?m) (review_card sels)")
        case (Inl err)
        with raise[OF Suc.prems, of err] qa show ?thesis by simp
      next
        case qa': (Inr cs')
        note c = cards[OF Suc.prems qa qa', of st]
        let ?st1 = "cards_loop dp sels src s e (timed_cards b ?m cs) st"
        have st1: "cards_loop dp' sels src s e (timed_cards b' ?m cs') st = ?st1"
          using c by simp
        have rec: "page_loop fuel dp b sels src s e
                (?st1\<lparr>page_index := page_index ?st1 + 1,
                      trace := trace ?st1 @ [Click (next_selector sels)]\<rparr>)
            = page_loop fuel dp' b' sels src s e
                (?st1\<lparr>page_index := page_index ?st1 + 1,
                      trace := trace ?st1 @ [Click (next_selector sels)]\<rparr>)"
          by (rule Suc.IH) (use Suc.prems in \<open>simp add: cards_loop_frame\<close>)
        have n': "has_next sels (site b' ?m) = has_next sels (site b ?m)"
          using n by simp
        show ?thesis
        proof (cases "cs = []")
          case True
          with c have "cs' = []" by simp
          with True Inr w' qa qa' show ?thesis by (simp add: Let_def)
        next
          case False
          with c have "cs' \<noteq> []" by simp
          then show ?thesis
            unfolding page_loop_pass[OF Inr qa False] page_loop_pass[OF w' qa' \<open>cs' \<noteq> []\<close>] st1 n'
            using rec by (simp add: Let_def split: sum.splits)
        qed
      qed
    qed
  qed
qed

section \<open>The page loop of \<^verbatim>\<open>review_scraper.py\<close>\<close>

lemma rs_card_body_frame:
  assumes "rs_card_body parse d src s e tc st = Inr (stop, st')"
  shows "pass st' = pass st" "rs_trace st' = rs_trace st" "stop \<Longrightarrow> found_old_review st'"
    "set (reviews_data st) \<subseteq> set (reviews_data st')"
  using assms by (auto simp: rs_card_body_cases split: sum.splits parsed.splits if_splits)

lemma rs_cards_loop_frame:
  "pass (rs_cards_loop parse d src s e tcs st) = pass st
   \<and> rs_trace (rs_cards_loop parse d src s e tcs st) = rs_trace st
   \<and> set (reviews_data st) \<subseteq> set (reviews_data (rs_cards_loop parse d src s e tcs st))"
proof (induction tcs arbitrary: st)
  case Nil
  show ?case by simp
next
  case (Cons a tcs)
  show ?case
  proof (cases "rs_card_body parse d src s e a st")
    case (Inl err)
    then show ?thesis using Cons.IH[of st] by simp
  next
    case (Inr r)
    obtain stop st' where r: "r = (stop, st')" by (cases r)
    note f = rs_card_body_frame[OF Inr[unfolded r]]
    show ?thesis
      using Inr r f(1,2,4) Cons.IH[of st'] by (cases stop) auto
  qed
qed

lemma rs_cards_loop_old:
  assumes "tc \<in> set tcs" and "rs_card_date parse d tc = Inr (Naive dt)" and "dt < s"
  shows "found_old_review (rs_cards_loop parse d src s e tcs st)"
  using assms(1)
proof (induction tcs arbitrary: st)
  case Nil
  then show ?case by simp
next
  case (Cons a tcs)
  show ?case
  proof (cases "rs_card_body parse d src s e a st")
    case (Inl err)
    with assms(2,3) have "tc \<noteq> a"
      by (auto simp: rs_card_body_old)
    with Cons.prems have "tc \<in> set tcs" by simp
    then show ?thesis using Inl by (simp add: Cons.IH)
  next
    case (Inr r)
    obtain stop st' where r: "r = (stop, st')" by (cases r)
    show ?thesis
    proof (cases stop)
      case True
      then show ?thesis
        using Inr r rs_card_body_frame(3)[of parse d src s e a st stop st'] by simp
    next
      case False
      with Inr r assms(2,3) have "tc \<noteq> a"
        by (auto simp: rs_card_body_old)
      with Cons.prems have "tc \<in> set tcs" by simp
      then show ?thesis using Inr r False by (simp add: Cons.IH)
    qed
  qed
qed

lemma rs_page_loop_pass:
  assumes "query_selector_all (site b (pass st)) (d_review_card d) = Inr cards" and "cards \<noteq> []"
  shows "rs_page_loop (Suc fuel) parse b (Some d) src s e st =
     (let st1 = rs_cards_loop parse d src s e (timed_cards b (pass st) cards)
                  (st\<lparr>found_old_review := False\<rparr>) in
      if found_old_review st1 then Some (None, st1)
      else
        (case rs_next d (site b (pass st)) of
           Inl x \<Rightarrow> Some (Some x, st1)
         | Inr clicked \<Rightarrow>
             if clicked
             then rs_page_loop fuel parse b (Some d) src s e
                    (st1\<lparr>pass := pass st1 + 1, rs_trace := rs_trace st1 @ [Click (d_next_btn d)]\<rparr>)
             else Some (None, st1)))"
  using assms by (simp add: Let_def)

lemma rs_page_loop_exits:
  assumes "rs_page_loop (Suc fuel) parse b (Some d) src s e st = Some (x, st')"
  obtains (stay) "st' = st"
  | (cards) cards where "query_selector_all (site b (pass st)) (d_review_card d) = Inr cards"
      "cards \<noteq> []"
      "st' = rs_cards_loop parse d src s e (timed_cards b (pass st) cards) (st\<lparr>found_old_review := False\<rparr>)"
  | (click) cards where
      "query_selector_all (site b (pass st)) (d_review_card d) = Inr cards" "cards \<noteq> []"
      "\<not> found_old_review (rs_cards_loop parse d src s e (timed_cards b (pass st) cards)
            (st\<lparr>found_old_review := False\<rparr>))"
      "rs_next d (site b (pass st)) = Inr True"
      "rs_page_loop fuel parse b (Some d) src s e
         ((rs_cards_loop parse d src s e (timed_cards b (pass st) cards) (st\<lparr>found_old_review := False\<rparr>))
            \<lparr>pass := pass st + 1, rs_trace := rs_trace st @ [Click (d_next_btn d)]\<rparr>) = Some (x, st')"
proof (cases "query_selector_all (site b (pass st)) (d_review_card d)")
  case (Inl err)
  with assms have "st' = st" by auto
  then show ?thesis by (rule stay)
next
  case qa: (Inr cs)
  let ?st1 = "rs_cards_loop parse d src s e (timed_cards b (pass st) cs) (st\<lparr>found_old_review := False\<rparr>)"
  have fr: "pass ?st1 = pass st" "rs_trace ?st1 = rs_trace st"
    using rs_cards_loop_frame[of parse d src s e "timed_cards b (pass st) cs" "st\<lparr>found_old_review := False\<rparr>"]
    by simp_all
  show ?thesis
  proof (cases "cs = []")
    case True
    with qa assms have "st' = st" by auto
    then show ?thesis by (rule stay)
  next
    case ne: False
    note pass = rs_page_loop_pass[OF qa ne, of fuel parse src s e]
    show ?thesis
    proof (cases "found_old_review ?st1 \<or> rs_next d (site b (pass st)) \<noteq> Inr True")
      case True
      with assms pass have "st' = ?st1"
        by (auto simp: Let_def split: if_splits sum.splits)
      with qa ne show ?thesis by (intro cards) simp_all
    next
      case False
      with assms pass have "rs_page_loop fuel parse b (Some d) src s e
           (?st1\<lparr>pass := pass st + 1, rs_trace := rs_trace st @ [Click (d_next_btn d)]\<rparr>)
             = Some (x, st')"
        by (simp add: Let_def fr)
      with qa ne False show ?thesis by (intro click) simp_all
    qed
  qed
qed

lemma rs_page_loop_rel:
  assumes run: "rs_page_loop fuel parse b (Some d) src s e st = Some (x, st')"
    and refl: "\<And>st. R st st"
    and trans: "\<And>st1 st2 st3. R st1 st2 \<Longrightarrow> R st2 st3 \<Longrightarrow> R st1 st3"
    and cards: "\<And>st tcs. R st (rs_cards_loop parse d src s e tcs (st\<lparr>found_old_review := False\<rparr>))"
    and click: "\<And>st. R st (st\<lparr>pass := pass st + 1, rs_trace := rs_trace st @ [Click (d_next_btn d)]\<rparr>)"
  shows "R st st'"
  using run
proof (induction fuel arbitrary: st)
  case 0
  then show ?case by simp
next
  case (Suc fuel)
  from Suc.prems show ?case
  proof (cases rule: rs_page_loop_exits)
    case stay
    then show ?thesis by (simp add: refl)
  next
    case (cards cs)
    then show ?thesis by (simp add: assms(4))
  next
    case (click cs)
    let ?st1 = "rs_cards_loop parse d src s e (timed_cards b (pass st) cs) (st\<lparr>found_old_review := False\<rparr>)"
    have fr: "pass ?st1 = pass st" "rs_trace ?st1 = rs_trace st"
      using rs_cards_loop_frame[of parse d src s e "timed_cards b (pass st) cs" "st\<lparr>found_old_review := False\<rparr>"]
      by simp_all
    have "R ?st1 (?st1\<lparr>pass := pass ?st1 + 1, rs_trace := rs_trace ?st1 @ [Click (d_next_btn d)]\<rparr>)"
      by (rule assms(5))
    then have "R ?st1 (?st1\<lparr>pass := pass st + 1, rs_trace := rs_trace st @ [Click (d_next_btn d)]\<rparr>)"
      by (simp add: fr)
    moreover have "R st ?st1" by (rule assms(4))
    moreover note Suc.IH[OF click(5)]
    ultimately show ?thesis by (blast intro: trans)
  qed
qed

lemma rs_page_loop_cong:
  assumes nxt: "\<And>m. k \<le> m \<Longrightarrow> rs_next d (site b m) = rs_next d (site b' m)"
    and raise: "\<And>m x. k \<le> m \<Longrightarrow>
         (query_selector_all (site b m) (d_review_card d) = Inl x)
           = (query_selector_all (site b' m) (d_review_card d) = Inl x)"
    and cards: "\<And>m cs cs' st. k \<le> m \<Longrightarrow> query_selector_all (site b m) (d_review_card d) = Inr cs
         \<Longrightarrow> query_selector_all (site b' m) (d_review_card d) = Inr cs'
         \<Longrightarrow> (cs = [] \<longleftrightarrow> cs' = [])
           \<and> rs_cards_loop parse d src s e (timed_cards b m cs) st
             = rs_cards_loop parse' d src s e (timed_cards b' m cs') st"
  shows "k \<le> pass st \<Longrightarrow>
     rs_page_loop fuel parse b (Some d) src s e st = rs_page_loop fuel parse' b' (Some d) src s e st"
proof (induction fuel arbitrary: st)
  case 0
  show ?case by simp
next
  case (Suc fuel)
  let ?m = "pass st"
  note n = nxt[OF Suc.prems]
  show ?case
  proof (cases "query_selector_all (site b ?m) (d_review_card d)")
    case (Inl err)
    with raise[OF Suc.prems, of err]
    have "query_selector_all (site b' ?m) (d_review_card d) = Inl err" by simp
    with Inl show ?thesis by (simp add: Let_def)
  next
    case qa: (Inr cs)
    show ?thesis
    proof (cases "query_selector_all (site b' ?m) (d_review_card d)")
      case (Inl err)
      with raise[OF Suc.prems, of err] qa show ?thesis by simp
    next
      case qa': (Inr cs')
      note c = cards[OF Suc.prems qa qa', of "st\<lparr>found_old_review := False\<rparr>"]
      let ?st1 = "rs_cards_loop parse d src s e (timed_cards b ?m cs) (st\<lparr>found_old_review := False\<rparr>)"
      have fr: "pass ?st1 = pass st"
        using rs_cards_loop_frame[of parse d src s e "timed_cards b ?m cs" "st\<lparr>found_old_review := False\<rparr>"]
        by simp
      have st1: "rs_cards_loop parse' d src s e (timed_cards b' ?m cs') (st\<lparr>found_old_review := False\<rparr>) = ?st1"
        using c by simp
      have rec: "rs_page_loop fuel parse b (Some d) src s e
                (?st1\<lparr>pass := pass ?st1 + 1, rs_trace := rs_trace ?st1 @ [Click (d_next_btn d)]\<rparr>)
            = rs_page_loop fuel parse' b' (Some d) src s e
                (?st1\<lparr>pass := pass ?st1 + 1, rs_trace := rs_trace ?st1 @ [Click (d_next_btn d)]\<rparr>)"
        by (rule Suc.IH) (use Suc.prems fr in simp)
      have n': "rs_next d (site b' ?m) = rs_next d (site b ?m)"
        using n by simp
      show ?thesis
      proof (cases "cs = []")
        case True
        with c have "cs' = []" by simp
        with True qa qa' show ?thesis by (simp add: Let_def)
      next
        case False
        with c have "cs' \<noteq> []" by simp
        then show ?thesis
          unfolding rs_page_loop_pass[OF qa False] rs_page_loop_pass[OF qa' \<open>cs' \<noteq> []\<close>] st1 n'
          using rec by (simp add: Let_def split: sum.splits)
      qed
    qed
  qed
qed

section \<open>Cards on the first and on the last day of the range\<close>















section \<open>Sessions on a site of two pages\<close>

text \<open>
  \<open>two_pages cs cs'\<close> shows \<open>cs\<close>, then \<open>cs'\<close>, then a page without cards; the
  next-page control works on the first two pages.
\<close>

lemma has_next_more:
  "next_btn sels = Some q \<Longrightarrow> q \<noteq> [] \<Longrightarrow> has_next sels (listing cs True) = Inr True"
proof -
  have "try_click (listing cs True) q 3000 = True" for q
    by (simp add: try_click_def listing_def text_element_def)
  then show "next_btn sels = Some q \<Longrightarrow> q \<noteq> [] \<Longrightarrow> has_next sels (listing cs True) = Inr True"
    by (simp add: has_next_def scroll_listing)
qed

lemma rs_next_more: "rs_next d (listing cs True) = Inr True"
  by (simp add: rs_next_def listing_def text_element_def)

lemma timed_cards_two_pages: "timed_cards (two_pages cs cs') n cards = map (Pair noon) cards"
  by (simp add: timed_cards_def two_pages_def enumerate_const)

lemma listing_reads:
  "cs \<noteq> [] \<Longrightarrow> wait_for_selector (listing cs nxt) q 15000 = Inr (Some (text_element []))"
  "wait_for_selector (listing [] nxt) q 15000 = Inl PlaywrightTimeoutError"
  "query_selector_all (listing cs nxt) q = Inr cs"
  by (simp_all add: listing_def)

lemma page_loop_no_cards:
  "site b (page_index st) = listing [] nxt \<Longrightarrow> page_loop (Suc fuel) dp b sels src s e st = Some (None, st)"
  by (simp add: listing_reads)

lemma page_loop_more:
  assumes "site b (page_index st) = listing cs True" and "cs \<noteq> []"
    and "next_btn sels = Some q" and "q \<noteq> []"
  shows "page_loop (Suc fuel) dp b sels src s e st =
     (let st1 = cards_loop dp sels src s e (timed_cards b (page_index st) cs) st in
      if old_review_reached st1 then Some (None, st1)
      else page_loop fuel dp b sels src s e
             (st1\<lparr>page_index := page_index st1 + 1, trace := trace st1 @ [Click q]\<rparr>))"
proof -
  have w: "wait_for_selector (site b (page_index st)) (review_card sels) 15000 = Inr (Some (text_element []))"
    and qa: "query_selector_all (site b (page_index st)) (review_card sels) = Inr cs"
    using assms(1,2) by (simp_all add: listing_reads)
  show ?thesis
    unfolding page_loop_pass[OF w qa assms(2)]
    using assms by (simp add: has_next_more next_selector_def Let_def)
qed

lemma two_pages_site:
  "site (two_pages cs cs') (Suc 0) = listing cs True"
  "site (two_pages cs cs') (Suc (Suc 0)) = listing cs' True"
  "site (two_pages cs cs') (Suc (Suc (Suc 0))) = listing [] False"
  by (simp_all add: two_pages_def)

lemma scroll_two_pages: "scroll_page (site (two_pages cs cs') n) k = Inr ()"
  by (simp add: two_pages_def scroll_listing)

lemma g2_next_selector:
  "next_btn (the (get_selectors ''g2'')) =
     Some ''a[aria-label='Next'], a.pagination__next, a[rel='next'], button[aria-label='Next']''"
  by (simp add: g2_selectors)

lemma g2_session_start:
  assumes "strptime sd = Inr s" and "strptime ed = Inr e" and "\<not> e < s"
  shows "scrape_session fuel dp (two_pages cs cs') ''slack'' sd ed ''g2'' None =
     map_option close_session
       (page_loop fuel dp (two_pages cs cs') (the (get_selectors ''g2'')) ''g2'' s e
         \<lparr>results = [], old_review_reached = False, page_index = Suc 0,
          trace = [Launch, Goto ''https://www.g2.com/products/slack/reviews'']\<rparr>)"
proof -
  have goto: "goto (two_pages cs cs') u = Inr ()" for u
    by (simp add: two_pages_def)
  show ?thesis
    unfolding scrape_session_def g2_selectors assms(1,2)
    using assms(3)
    by (simp add: g2_url goto initial_state_def scroll_two_pages del: page_loop.simps)
qed


text \<open>
  \<^verbatim>\<open>scraper.py\<close> on a site whose first page shows one review, of 12 March 2024, and whose
  second page shows one of 4 March, for the range 2 to 10 March: it returns the review
  of 4 March. On the same site without the review of 12 March it returns nothing: the
  first page shows no card, and the loop ends there.
\<close>

theorem newer_card_keeps_the_crawl_going:
  "scrape_reviews (Suc (Suc (Suc 0))) demo_dateparser
      (two_pages [text_card ''2024-03-12''] [text_card ''2024-03-04''])
      ''slack'' ''2024-03-02'' ''2024-03-10'' ''g2'' None =
     Some (Inr [\<lparr>r_source = ''g2'', r_title = ''2024-03-04'', r_description = ''2024-03-04'',
                 r_date = ''2024-03-04'', r_rating = ''2024-03-04''\<rparr>])
   \<and> scrape_reviews (Suc (Suc (Suc 0))) demo_dateparser
      (two_pages [] [text_card ''2024-03-04''])
      ''slack'' ''2024-03-02'' ''2024-03-10'' ''g2'' None = Some (Inr [])"
proof -
  have newer: "process_card demo_dateparser sels ''g2'' range_start range_end
        (noon, text_card ''2024-03-12'') st = st" for sels st
    using newer_not_older[OF after_range_0312]
    by (simp add: process_card_cases card_date_0312 within_range_def)
  have in_range: "process_card demo_dateparser sels ''g2'' range_start range_end
        (noon, text_card ''2024-03-04'') st =
      st\<lparr>results := results st @ [make_review sels ''g2'' (text_card ''2024-03-04'') (2024, 3, 4, 0, 0, 0, 0)]\<rparr>"
    for sels st
    using process_card_in_range[OF card_date_0304 in_range_0304(2)] by simp
  have with_card: "scrape_reviews (Suc (Suc (Suc 0))) demo_dateparser
      (two_pages [text_card ''2024-03-12''] [text_card ''2024-03-04''])
      ''slack'' ''2024-03-02'' ''2024-03-10'' ''g2'' None =
     Some (Inr [\<lparr>r_source = ''g2'', r_title = ''2024-03-04'', r_description = ''2024-03-04'',
                 r_date = ''2024-03-04'', r_rating = ''2024-03-04''\<rparr>])"
    unfolding scrape_reviews_def g2_session_start[OF strptime_0302 strptime_0310 in_range_0304(5)]
    by (simp add: page_loop_more[OF _ _ g2_next_selector] page_loop_no_cards two_pages_site
          timed_cards_two_pages newer in_range close_session_def
          make_review_text_card g2_rating_selector strip_0304 lower_g2 iso_0304
          del: page_loop.simps)
  have without: "scrape_reviews (Suc (Suc (Suc 0))) demo_dateparser
      (two_pages [] [text_card ''2024-03-04''])
      ''slack'' ''2024-03-02'' ''2024-03-10'' ''g2'' None = Some (Inr [])"
    unfolding scrape_reviews_def g2_session_start[OF strptime_0302 strptime_0310 in_range_0304(5)]
    by (simp add: page_loop_no_cards two_pages_site close_session_def del: page_loop.simps)
  from with_card without show ?thesis
    by (rule conjI)
qed


lemma timed_cards_nonempty: "timed_cards b n cards = tcs \<Longrightarrow> tcs \<noteq> [] \<Longrightarrow> cards \<noteq> []"
  by (auto simp: timed_cards_def)

lemma page_loop_without_card:
  assumes skip: "\<And>st. process_card dp sels src s e tc st = st"
    and here: "page_index st = n"
    and qa: "query_selector_all (site b n) (review_card sels) = Inr cards"
      "query_selector_all (site b0 n) (review_card sels) = Inr cards0"
    and tcs: "timed_cards b n cards = xs @ tc # ys" "timed_cards b0 n cards0 = xs @ ys" "cards0 \<noteq> []"
    and same: "wait_for_selector (site b0 n) (review_card sels) 15000
                 = wait_for_selector (site b n) (review_card sels) 15000"
      "has_next sels (site b0 n) = has_next sels (site b n)"
    and later: "\<forall>m. n < m \<longrightarrow> site b0 m = site b m \<and> clock b0 m = clock b m"
  shows "page_loop fuel dp b sels src s e st = page_loop fuel dp b0 sels src s e st"
proof (rule page_loop_cong[where k = n])
  fix m assume "n \<le> m"
  then show "wait_for_selector (site b m) (review_card sels) 15000
                    = wait_for_selector (site b0 m) (review_card sels) 15000"
    using same(1) later by (cases "m = n") auto
next
  fix m assume "n \<le> m"
  then show "has_next sels (site b m) = has_next sels (site b0 m)"
    using same(2) later by (cases "m = n") auto
next
  fix m x assume "n \<le> m"
  then show "(query_selector_all (site b m) (review_card sels) = Inl x)
           = (query_selector_all (site b0 m) (review_card sels) = Inl x)"
    using qa later by (cases "m = n") auto
next
  fix m cs cs' st'
  assume m: "n \<le> m" and c: "query_selector_all (site b m) (review_card sels) = Inr cs"
    "query_selector_all (site b0 m) (review_card sels) = Inr cs'"
  show "(cs = [] \<longleftrightarrow> cs' = [])
           \<and> cards_loop dp sels src s e (timed_cards b m cs) st'
             = cards_loop dp sels src s e (timed_cards b0 m cs') st'"
  proof (cases "m = n")
    case True
    with c qa have eq: "cs = cards" "cs' = cards0" by simp_all
    have "cards \<noteq> []"
      by (rule timed_cards_nonempty[OF tcs(1)]) simp
    then show ?thesis
      using eq True tcs cards_loop_skip[of dp sels src s e tc xs ys st', OF skip] by simp
  next
    case False
    with m later have "site b0 m = site b m" "clock b0 m = clock b m" by auto
    with c show ?thesis by (simp add: timed_cards_def)
  qed
next
  show "n \<le> page_index st" using here by simp
qed

lemma rs_page_loop_without_card:
  assumes skip: "\<And>st. rs_card_body parse d src s e tc st = Inr (False, st)"
    and here: "pass st = n"
    and qa: "query_selector_all (site b n) (d_review_card d) = Inr cards"
      "query_selector_all (site b0 n) (d_review_card d) = Inr cards0"
    and tcs: "timed_cards b n cards = xs @ tc # ys" "timed_cards b0 n cards0 = xs @ ys" "cards0 \<noteq> []"
    and same: "rs_next d (site b0 n) = rs_next d (site b n)"
    and later: "\<forall>m. n < m \<longrightarrow> site b0 m = site b m \<and> clock b0 m = clock b m"
  shows "rs_page_loop fuel parse b (Some d) src s e st = rs_page_loop fuel parse b0 (Some d) src s e st"
proof (rule rs_page_loop_cong[where k = n])
  fix m assume "n \<le> m"
  then show "rs_next d (site b m) = rs_next d (site b0 m)"
    using same later by (cases "m = n") auto
next
  fix m x assume "n \<le> m"
  then show "(query_selector_all (site b m) (d_review_card d) = Inl x)
           = (query_selector_all (site b0 m) (d_review_card d) = Inl x)"
    using qa later by (cases "m = n") auto
next
  fix m cs cs' st'
  assume m: "n \<le> m" and c: "query_selector_all (site b m) (d_review_card d) = Inr cs"
    "query_selector_all (site b0 m) (d_review_card d) = Inr cs'"
  show "(cs = [] \<longleftrightarrow> cs' = [])
           \<and> rs_cards_loop parse d src s e (timed_cards b m cs) st'
             = rs_cards_loop parse d src s e (timed_cards b0 m cs') st'"
  proof (cases "m = n")
    case True
    with c qa have eq: "cs = cards" "cs' = cards0" by simp_all
    have "cards \<noteq> []"
      by (rule timed_cards_nonempty[OF tcs(1)]) simp
    moreover have "rs_cards_loop parse d src s e (xs @ tc # ys) st' = rs_cards_loop parse d src s e (xs @ ys) st'"
      by (rule rs_cards_loop_skip) (simp add: skip)
    ultimately show ?thesis
      using eq True tcs by simp
  next
    case False
    with m later have "site b0 m = site b m" "clock b0 m = clock b m" by auto
    with c show ?thesis by (simp add: timed_cards_def)
  qed
next
  show "n \<le> pass st" using here by simp
qed

text \<open>
  Claim C10, as it holds. For a range with \<open>start \<le> end\<close>, a card whose date is after
  the end of the range leaves every variable as it was: nothing is appended, the flag
  for an older review is not set and, in \<^verbatim>\<open>review_scraper.py\<close>, the \<^verbatim>\<open>break\<close> is not taken;
  the card loop ends in the same variables as on the list of cards without it. When
  the page shows another card as well, the page loop ends as it does on the site that
  differs in this card only (\<open>b0\<close> below: the same pages, with the same clock readings
  for the other cards). A page that shows such cards only is not an empty page.
\<close>

theorem newer_card_ignored:
  "(card_date dp sels tc = Inr (Some dt) \<and> e < dt \<and> s \<le> e \<longrightarrow>
      card_body dp sels src s e tc st = Inr st
      \<and> cards_loop dp sels src s e (xs @ tc # ys) st = cards_loop dp sels src s e (xs @ ys) st
      \<and> (page_index st = n
          \<and> query_selector_all (site b n) (review_card sels) = Inr cards
          \<and> query_selector_all (site b0 n) (review_card sels) = Inr cards0
          \<and> timed_cards b n cards = xs @ tc # ys \<and> timed_cards b0 n cards0 = xs @ ys \<and> cards0 \<noteq> []
          \<and> wait_for_selector (site b0 n) (review_card sels) 15000
               = wait_for_selector (site b n) (review_card sels) 15000
          \<and> has_next sels (site b0 n) = has_next sels (site b n)
          \<and> (\<forall>m. n < m \<longrightarrow> site b0 m = site b m \<and> clock b0 m = clock b m) \<longrightarrow>
          page_loop fuel dp b sels src s e st = page_loop fuel dp b0 sels src s e st))
   \<and> (rs_card_date parse d tc' = Inr (Naive dt') \<and> e' < dt' \<and> s' \<le> e' \<longrightarrow>
      rs_card_body parse d src' s' e' tc' st' = Inr (False, st')
      \<and> rs_cards_loop parse d src' s' e' (xs' @ tc' # ys') st' = rs_cards_loop parse d src' s' e' (xs' @ ys') st'
      \<and> (pass st' = n'
          \<and> query_selector_all (site b' n') (d_review_card d) = Inr cards'
          \<and> query_selector_all (site b0' n') (d_review_card d) = Inr cards0'
          \<and> timed_cards b' n' cards' = xs' @ tc' # ys' \<and> timed_cards b0' n' cards0' = xs' @ ys'
          \<and> cards0' \<noteq> []
          \<and> rs_next d (site b0' n') = rs_next d (site b' n')
          \<and> (\<forall>m. n' < m \<longrightarrow> site b0' m = site b' m \<and> clock b0' m = clock b' m) \<longrightarrow>
          rs_page_loop fuel' parse b' (Some d) src' s' e' st'
            = rs_page_loop fuel' parse b0' (Some d) src' s' e' st'))"
proof (intro conjI impI)
  assume a: "card_date dp sels tc = Inr (Some dt) \<and> e < dt \<and> s \<le> e"
  then have n: "\<not> dt < s" "\<not> within_range dt s e"
    using newer_not_older[of e dt s] by (simp_all add: within_range_def)
  show "card_body dp sels src s e tc st = Inr st"
    using a n by (simp add: card_body_def)
  have skip: "process_card dp sels src s e tc st0 = st0" for st0
    using a n by (simp add: process_card_cases)
  then show "cards_loop dp sels src s e (xs @ tc # ys) st = cards_loop dp sels src s e (xs @ ys) st"
    by (rule cards_loop_skip)
  assume "page_index st = n
          \<and> query_selector_all (site b n) (review_card sels) = Inr cards
          \<and> query_selector_all (site b0 n) (review_card sels) = Inr cards0
          \<and> timed_cards b n cards = xs @ tc # ys \<and> timed_cards b0 n cards0 = xs @ ys \<and> cards0 \<noteq> []
          \<and> wait_for_selector (site b0 n) (review_card sels) 15000
               = wait_for_selector (site b n) (review_card sels) 15000
          \<and> has_next sels (site b0 n) = has_next sels (site b n)
          \<and> (\<forall>m. n < m \<longrightarrow> site b0 m = site b m \<and> clock b0 m = clock b m)"
  then have h: "page_index st = n"
      "query_selector_all (site b n) (review_card sels) = Inr cards"
      "query_selector_all (site b0 n) (review_card sels) = Inr cards0"
      "timed_cards b n cards = xs @ tc # ys" "timed_cards b0 n cards0 = xs @ ys" "cards0 \<noteq> []"
      "wait_for_selector (site b0 n) (review_card sels) 15000
               = wait_for_selector (site b n) (review_card sels) 15000"
      "has_next sels (site b0 n) = has_next sels (site b n)"
      "\<forall>m. n < m \<longrightarrow> site b0 m = site b m \<and> clock b0 m = clock b m"
    by blast+
  show "page_loop fuel dp b sels src s e st = page_loop fuel dp b0 sels src s e st"
    by (rule page_loop_without_card[OF skip h])
next
  assume a: "rs_card_date parse d tc' = Inr (Naive dt') \<and> e' < dt' \<and> s' \<le> e'"
  then have n: "\<not> dt' < s'" "\<not> (s' \<le> dt' \<and> dt' \<le> e')"
    using newer_not_older[of e' dt' s'] by simp_all
  have skip: "rs_card_body parse d src' s' e' tc' st0 = Inr (False, st0)" for st0
    using a n by (simp add: rs_card_body_cases)
  show "rs_card_body parse d src' s' e' tc' st' = Inr (False, st')"
    by (rule skip)
  show "rs_cards_loop parse d src' s' e' (xs' @ tc' # ys') st' = rs_cards_loop parse d src' s' e' (xs' @ ys') st'"
    by (rule rs_cards_loop_skip) (simp add: skip)
  assume "pass st' = n'
          \<and> query_selector_all (site b' n') (d_review_card d) = Inr cards'
          \<and> query_selector_all (site b0' n') (d_review_card d) = Inr cards0'
          \<and> timed_cards b' n' cards' = xs' @ tc' # ys' \<and> timed_cards b0' n' cards0' = xs' @ ys'
          \<and> cards0' \<noteq> []
          \<and> rs_next d (site b0' n') = rs_next d (site b' n')
          \<and> (\<forall>m. n' < m \<longrightarrow> site b0' m = site b' m \<and> clock b0' m = clock b' m)"
  then have h: "pass st' = n'"
      "query_selector_all (site b' n') (d_review_card d) = Inr cards'"
      "query_selector_all (site b0' n') (d_review_card d) = Inr cards0'"
      "timed_cards b' n' cards' = xs' @ tc' # ys'" "timed_cards b0' n' cards0' = xs' @ ys'"
      "cards0' \<noteq> []"
      "rs_next d (site b0' n') = rs_next d (site b' n')"
      "\<forall>m. n' < m \<longrightarrow> site b0' m = site b' m \<and> clock b0' m = clock b' m"
    by blast+
  show "rs_page_loop fuel' parse b' (Some d) src' s' e' st'
            = rs_page_loop fuel' parse b0' (Some d) src' s' e' st'"
    by (rule rs_page_loop_without_card[OF skip h])
qed


text \<open>
  A first page that shows a review of 4 March and one of 12 March 2024, and the same
  page without the review of 12 March; the second page shows a review of 20 February.
\<close>

lemma two_pages_later:
  "\<forall>m. 1 < m \<longrightarrow> site (two_pages cs0 cs') m = site (two_pages cs cs') m
      \<and> clock (two_pages cs0 cs') m = clock (two_pages cs cs') m"
  by (simp add: two_pages_def)

lemma two_pages_first:
  "query_selector_all (site (two_pages cs cs') 1) q = Inr cs"
  "cs \<noteq> [] \<Longrightarrow> cs0 \<noteq> [] \<Longrightarrow> wait_for_selector (site (two_pages cs0 cs') 1) q 15000
     = wait_for_selector (site (two_pages cs cs') 1) q 15000"
  "has_next demo_selectors (site (two_pages cs0 cs') 1) = has_next demo_selectors (site (two_pages cs cs') 1)"
  "rs_next d (site (two_pages cs0 cs') 1) = rs_next d (site (two_pages cs cs') 1)"
proof -
  have hn: "has_next demo_selectors (listing xs True) = Inr True" for xs
    by (rule has_next_more[of _ "''a.next''"]) (simp_all add: demo_selectors_def)
  show "query_selector_all (site (two_pages cs cs') 1) q = Inr cs"
    "cs \<noteq> [] \<Longrightarrow> cs0 \<noteq> [] \<Longrightarrow> wait_for_selector (site (two_pages cs0 cs') 1) q 15000
       = wait_for_selector (site (two_pages cs cs') 1) q 15000"
    "has_next demo_selectors (site (two_pages cs0 cs') 1) = has_next demo_selectors (site (two_pages cs cs') 1)"
    "rs_next d (site (two_pages cs0 cs') 1) = rs_next d (site (two_pages cs cs') 1)"
    by (simp_all add: two_pages_def listing_reads rs_next_more hn)
qed

theorem newer_card_ignored_witness:
  "card_date demo_dateparser demo_selectors (noon, text_card ''2024-03-12'') = Inr (Some (2024, 3, 12, 0, 0, 0, 0))
   \<and> range_end < (2024, 3, 12, 0, 0, 0, 0) \<and> range_start \<le> range_end
   \<and> card_body demo_dateparser demo_selectors ''g2'' range_start range_end (noon, text_card ''2024-03-12'') initial_state
       = Inr initial_state
   \<and> cards_loop demo_dateparser demo_selectors ''g2'' range_start range_end
        ([(noon, text_card ''2024-03-04'')] @ (noon, text_card ''2024-03-12'') # []) initial_state
       = cards_loop demo_dateparser demo_selectors ''g2'' range_start range_end
        ([(noon, text_card ''2024-03-04'')] @ []) initial_state
   \<and> page_index initial_state = 1
   \<and> query_selector_all (site (two_pages [text_card ''2024-03-04'', text_card ''2024-03-12''] [text_card ''2024-02-20'']) 1) (review_card demo_selectors) = Inr [text_card ''2024-03-04'', text_card ''2024-03-12'']
   \<and> query_selector_all (site (two_pages [text_card ''2024-03-04''] [text_card ''2024-02-20'']) 1) (review_card demo_selectors) = Inr [text_card ''2024-03-04'']
   \<and> timed_cards (two_pages [text_card ''2024-03-04'', text_card ''2024-03-12''] [text_card ''2024-02-20'']) 1 [text_card ''2024-03-04'', text_card ''2024-03-12''] = [(noon, text_card ''2024-03-04'')] @ (noon, text_card ''2024-03-12'') # []
   \<and> timed_cards (two_pages [text_card ''2024-03-04''] [text_card ''2024-02-20'']) 1 [text_card ''2024-03-04''] = [(noon, text_card ''2024-03-04'')] @ []
   \<and> page_loop (Suc (Suc 0)) demo_dateparser (two_pages [text_card ''2024-03-04'', text_card ''2024-03-12''] [text_card ''2024-02-20'']) demo_selectors ''g2'' range_start range_end initial_state
       = page_loop (Suc (Suc 0)) demo_dateparser (two_pages [text_card ''2024-03-04''] [text_card ''2024-02-20'']) demo_selectors ''g2'' range_start range_end initial_state
   \<and> rs_card_date demo_dateutil demo_dict (noon, text_card ''2024-03-12'') = Inr (Naive (2024, 3, 12, 0, 0, 0, 0))
   \<and> rs_card_body demo_dateutil demo_dict ''sourceforge'' range_start range_end (noon, text_card ''2024-03-12'') rs_initial_state
       = Inr (False, rs_initial_state)
   \<and> rs_cards_loop demo_dateutil demo_dict ''sourceforge'' range_start range_end
        ([(noon, text_card ''2024-03-04'')] @ (noon, text_card ''2024-03-12'') # []) rs_initial_state
       = rs_cards_loop demo_dateutil demo_dict ''sourceforge'' range_start range_end
        ([(noon, text_card ''2024-03-04'')] @ []) rs_initial_state
   \<and> pass rs_initial_state = 1
   \<and> query_selector_all (site (two_pages [text_card ''2024-03-04'', text_card ''2024-03-12''] [text_card ''2024-02-20'']) 1) (d_review_card demo_dict) = Inr [text_card ''2024-03-04'', text_card ''2024-03-12'']
   \<and> query_selector_all (site (two_pages [text_card ''2024-03-04''] [text_card ''2024-02-20'']) 1) (d_review_card demo_dict) = Inr [text_card ''2024-03-04'']
   \<and> rs_page_loop (Suc (Suc 0)) demo_dateutil (two_pages [text_card ''2024-03-04'', text_card ''2024-03-12''] [text_card ''2024-02-20'']) (Some demo_dict) ''sourceforge'' range_start range_end
        rs_initial_state
       = rs_page_loop (Suc (Suc 0)) demo_dateutil (two_pages [text_card ''2024-03-04''] [text_card ''2024-02-20'']) (Some demo_dict) ''sourceforge'' range_start range_end
        rs_initial_state"
proof -
  note t = newer_card_ignored[where dp = demo_dateparser and sels = demo_selectors
      and tc = "(noon, text_card ''2024-03-12'')" and dt = "(2024, 3, 12, 0, 0, 0, 0)" and e = range_end and s = range_start
      and src = "''g2''" and st = initial_state and xs = "[(noon, text_card ''2024-03-04'')]" and ys = "[]"
      and n = 1 and b = "(two_pages [text_card ''2024-03-04'', text_card ''2024-03-12''] [text_card ''2024-02-20''])" and cards = "[text_card ''2024-03-04'', text_card ''2024-03-12'']"
      and ?b0.0 = "(two_pages [text_card ''2024-03-04''] [text_card ''2024-02-20''])" and ?cards0.0 = "[text_card ''2024-03-04'']" and fuel = "Suc (Suc 0)"
      and parse = demo_dateutil and d = demo_dict
      and tc' = "(noon, text_card ''2024-03-12'')" and dt' = "(2024, 3, 12, 0, 0, 0, 0)" and e' = range_end and s' = range_start
      and src' = "''sourceforge''" and st' = rs_initial_state and xs' = "[(noon, text_card ''2024-03-04'')]" and ys' = "[]"
      and n' = 1 and b' = "(two_pages [text_card ''2024-03-04'', text_card ''2024-03-12''] [text_card ''2024-02-20''])" and cards' = "[text_card ''2024-03-04'', text_card ''2024-03-12'']"
      and b0' = "(two_pages [text_card ''2024-03-04''] [text_card ''2024-02-20''])" and cards0' = "[text_card ''2024-03-04'']" and fuel' = "Suc (Suc 0)"]
  have idx: "page_index initial_state = 1" "pass rs_initial_state = 1"
    by (simp_all add: initial_state_def rs_initial_state_def)
  have w: "wait_for_selector (site (two_pages [text_card ''2024-03-04''] [text_card ''2024-02-20'']) 1) (review_card demo_selectors) 15000
      = wait_for_selector (site (two_pages [text_card ''2024-03-04'', text_card ''2024-03-12''] [text_card ''2024-02-20'']) 1) (review_card demo_selectors) 15000"
    by (rule two_pages_first(2)) simp_all
  show ?thesis
    using t card_date_0312[of demo_selectors noon] rs_card_date_0312[of demo_dict noon] after_range_0312
      idx w two_pages_first(1,3,4) two_pages_later timed_cards_two_pages
    by (simp del: cards_loop.simps rs_cards_loop.simps page_loop.simps rs_page_loop.simps One_nat_def)
qed

end
